theory Spec2Isabelle
  imports Complex_Main "HOL-Library.Multiset"
begin

section \<open>Python values used by the schedule analyzer\<close>

text \<open>
  The exceptions that can leave the analyzer's methods. \<open>requests.RequestException\<close> is
  not among them: \<open>fetch_api_data\<close> catches it.
\<close>

datatype error = JSONDecodeError | AttributeError | TypeError | OverflowError | ValueError

text \<open>
  A value produced by \<open>json.loads\<close>. A \<open>JObj\<close> lists the items of the Python dict in
  insertion order (keys distinct); a \<open>JFloat\<close> carries the exact value of the float.
\<close>

datatype json =
    JNull
  | JBool bool
  | JInt int
  | JFloat rat
  | JStr string
  | JArr "json list"
  | JObj "(string \<times> json) list"

text \<open>
  The text of an HTTP response, represented by what \<open>json.loads\<close> makes of it:
  \<open>NotJSON\<close> when \<open>json.loads\<close> raises, \<open>JSON v\<close> when it returns \<open>v\<close>.
  The literal \<open>"{}"\<close> is \<open>JSON (JObj [])\<close>.
\<close>

datatype body = NotJSON | JSON json

datatype response = RequestException | Text body

fun json_loads :: "body \<Rightarrow> error + json" where
  "json_loads NotJSON = Inl JSONDecodeError"
| "json_loads (JSON v) = Inr v"

text \<open>\<open>d.get(key, dflt)\<close>; an object without \<open>get\<close> raises \<open>AttributeError\<close>.\<close>

fun py_get :: "json \<Rightarrow> string \<Rightarrow> json \<Rightarrow> error + json" where
  "py_get (JObj items) key dflt =
     Inr (case map_of items key of None \<Rightarrow> dflt | Some v \<Rightarrow> v)"
| "py_get _ key dflt = Inl AttributeError"

text \<open>\<open>for x in v\<close>: the elements of a list, the keys of a dict, the characters of a string.\<close>

fun py_iter :: "json \<Rightarrow> error + json list" where
  "py_iter (JArr xs) = Inr xs"
| "py_iter (JObj items) = Inr (map (\<lambda>(k, v). JStr k) items)"
| "py_iter (JStr s) = Inr (map (\<lambda>c. JStr [c]) s)"
| "py_iter _ = Inl TypeError"

text \<open>\<open>v == 2\<close>: numbers compare by value, and \<open>True\<close> is \<open>1\<close>.\<close>

fun py_eq_2 :: "json \<Rightarrow> bool" where
  "py_eq_2 (JInt i) = (i = 2)"
| "py_eq_2 (JFloat r) = (r = 2)"
| "py_eq_2 _ = False"

text \<open>\<open>if v:\<close>\<close>

fun truthy :: "json \<Rightarrow> bool" where
  "truthy JNull = False"
| "truthy (JBool b) = b"
| "truthy (JInt i) = (i \<noteq> 0)"
| "truthy (JFloat r) = (r \<noteq> 0)"
| "truthy (JStr s) = (s \<noteq> [])"
| "truthy (JArr xs) = (xs \<noteq> [])"
| "truthy (JObj items) = (items \<noteq> [])"

text \<open>\<open>s.replace('Z', '+00:00')\<close> and \<open>s.split('T')[0]\<close>\<close>

definition replace_Z :: "string \<Rightarrow> string" where
  "replace_Z s = concat (map (\<lambda>c. if c = CHR ''Z'' then ''+00:00'' else [c]) s)"

definition split_T_0 :: "string \<Rightarrow> string" where
  "split_T_0 s = takeWhile (\<lambda>c. c \<noteq> CHR ''T'') s"

subsection \<open>Dates and times\<close>

text \<open>
  A \<open>datetime.date\<close> is represented by its proleptic Gregorian ordinal (\<open>toordinal()\<close>,
  day 1 is 0001-01-01), a \<open>datetime.time\<close> by its fields, and a \<open>datetime.datetime\<close>
  by its \<open>date()\<close> and its \<open>time()\<close>. The \<open>tzinfo\<close> of a datetime is left out: neither
  \<open>date()\<close>, \<open>time()\<close>, \<open>strftime\<close> nor the addition of a \<open>timedelta\<close> reads it.
\<close>

type_synonym pydate = int

record pytime =
  hour :: nat
  minute :: nat
  second :: nat
  microsecond :: nat

record datetime =
  date :: pydate
  time :: pytime

definition MAXORDINAL :: int where
  "MAXORDINAL = 3652059"

definition is_leap :: "int \<Rightarrow> bool" where
  "is_leap year = (year mod 4 = 0 \<and> (year mod 100 \<noteq> 0 \<or> year mod 400 = 0))"

definition days_before_year :: "int \<Rightarrow> int" where
  "days_before_year year =
     (let y = year - 1 in y * 365 + y div 4 - y div 100 + y div 400)"

definition DAYS_BEFORE_MONTH :: "int list" where
  "DAYS_BEFORE_MONTH = [0, 31, 59, 90, 120, 151, 181, 212, 243, 273, 304, 334]"

definition days_before_month :: "int \<Rightarrow> int \<Rightarrow> int" where
  "days_before_month year month =
     DAYS_BEFORE_MONTH ! nat (month - 1) + (if month > 2 \<and> is_leap year then 1 else 0)"

text \<open>The ordinal of the date \<open>year-month-day\<close> (month in 1..12).\<close>

definition ymd2ord :: "int \<Rightarrow> int \<Rightarrow> int \<Rightarrow> pydate" where
  "ymd2ord year month day =
     days_before_year year + days_before_month year month + day"

definition mk_time :: "nat \<Rightarrow> nat \<Rightarrow> nat \<Rightarrow> pytime" where
  "mk_time h m s = \<lparr>hour = h, minute = m, second = s, microsecond = 0\<rparr>"

definition mk_datetime :: "int \<Rightarrow> int \<Rightarrow> int \<Rightarrow> nat \<Rightarrow> nat \<Rightarrow> nat \<Rightarrow> datetime" where
  "mk_datetime y mo d h mi s = \<lparr>date = ymd2ord y mo d, time = mk_time h mi s\<rparr>"

text \<open>Times compare as the tuples \<open>(hour, minute, second, microsecond)\<close>.\<close>

definition time_le :: "pytime \<Rightarrow> pytime \<Rightarrow> bool" where
  "time_le a b =
     (hour a < hour b \<or> (hour a = hour b \<and>
       (minute a < minute b \<or> (minute a = minute b \<and>
         (second a < second b \<or> (second a = second b \<and>
           microsecond a \<le> microsecond b))))))"

text \<open>
  \<open>timedelta(hours=h)\<close>, as a number of seconds; its day count is limited to
  \<open>\<plusminus>999999999\<close>.
\<close>

definition timedelta_hours :: "int \<Rightarrow> error + int" where
  "timedelta_hours h =
     (if \<bar>h div 24\<bar> > 999999999 then Inl OverflowError else Inr (h * 3600))"

text \<open>
  \<open>dt + delta\<close> for a \<open>delta\<close> of whole seconds: the result must be a date between
  0001-01-01 and 9999-12-31.
\<close>

definition datetime_add :: "datetime \<Rightarrow> int \<Rightarrow> error + datetime" where
  "datetime_add dt delta =
     (let t = time dt;
          s = int (hour t * 3600 + minute t * 60 + second t) + delta;
          days = date dt + s div 86400;
          r = nat (s mod 86400)
      in if 0 < days \<and> days \<le> MAXORDINAL
         then Inr \<lparr>date = days,
                   time = \<lparr>hour = r div 3600, minute = r mod 3600 div 60,
                           second = r mod 60, microsecond = microsecond t\<rparr>\<rparr>
         else Inl OverflowError)"

definition DAY_NAMES :: "string list" where
  "DAY_NAMES = [''Monday'', ''Tuesday'', ''Wednesday'', ''Thursday'', ''Friday'',
                ''Saturday'', ''Sunday'']"

text \<open>\<open>dt.strftime("%A")\<close> (in the C locale); \<open>weekday()\<close> is \<open>(toordinal() + 6) % 7\<close>.\<close>

definition weekday :: "datetime \<Rightarrow> nat" where
  "weekday dt = nat ((date dt + 6) mod 7)"

definition strftime_A :: "datetime \<Rightarrow> string" where
  "strftime_A dt = DAY_NAMES ! weekday dt"

section \<open>The analyzer\<close>

text \<open>A parsed game is the pair \<open>(dt, date_str)\<close> appended by \<open>get_team_schedule_cached\<close>.\<close>

type_synonym game = "datetime \<times> string"

text \<open>A row \<open>(team, viewable_games, game_dates)\<close> returned by \<open>analyze_team_viewing_time\<close>.\<close>

type_synonym row = "string \<times> nat \<times> string list"

text \<open>
  What the analyzer does not define itself: the network (the answer of the \<open>n\<close>-th GET of
  the run to a URL, \<open>n\<close> counted from 0) and \<open>datetime.fromisoformat\<close> (\<open>None\<close> when it
  raises \<open>ValueError\<close>).
\<close>

record env =
  net :: "nat \<Rightarrow> string \<Rightarrow> response"
  fromisoformat :: "string \<Rightarrow> datetime option"

text \<open>
  The state of an \<open>NHLScheduleAnalyzer\<close>: \<open>cache\<close> is \<open>self._cache\<close>, \<open>lru\<close> the
  entries of the \<open>lru_cache\<close> of \<open>fetch_api_data\<close> (most recently used first), and
  \<open>requests\<close> the log of the GETs sent by \<open>self._session\<close>. \<open>self.team_list\<close> is the
  same list in every analyzer and is never assigned again: it is the constant \<open>team_list\<close>.
\<close>

record analyzer =
  max_workers :: int
  cache :: "string \<rightharpoonup> game list"
  lru :: "(string \<times> body) list"
  requests :: "string list"
  current_date :: pydate

definition NHL_TEAMS :: "(nat \<times> string) list" where
  "NHL_TEAMS =
     [(1, ''NJD''), (2, ''NYI''), (3, ''NYR''), (4, ''PHI''), (5, ''PIT''), (6, ''BOS''),
      (7, ''BUF''), (8, ''MTL''), (9, ''OTT''), (10, ''TOR''), (13, ''FLA''), (14, ''TBL''),
      (12, ''CAR''), (15, ''WSH''), (16, ''CHI''), (17, ''DET''), (18, ''NSH''), (19, ''STL''),
      (20, ''CGY''), (21, ''COL''), (22, ''EDM''), (23, ''VAN''), (24, ''ANA''), (25, ''DAL''),
      (26, ''LAK''), (28, ''SJS''), (29, ''CBJ''), (30, ''MIN''), (52, ''WPG''), (54, ''VGK''),
      (55, ''SEA''), (59, ''UTA'')]"

definition VIEWING_WINDOWS_TIME :: "(string \<times> pytime \<times> pytime) list" where
  "VIEWING_WINDOWS_TIME =
     [(''Monday'', mk_time 15 0 0, mk_time 22 30 0),
      (''Tuesday'', mk_time 15 0 0, mk_time 22 30 0),
      (''Wednesday'', mk_time 15 0 0, mk_time 22 30 0),
      (''Thursday'', mk_time 15 0 0, mk_time 22 30 0),
      (''Friday'', mk_time 15 0 0, mk_time 23 30 0),
      (''Saturday'', mk_time 9 0 0, mk_time 23 30 0),
      (''Sunday'', mk_time 9 0 0, mk_time 22 0 0)]"

definition team_list :: "string list" where
  "team_list = map snd NHL_TEAMS"

text \<open>\<open>__init__\<close>; \<open>today\<close> is \<open>datetime.now().date()\<close> at construction.\<close>

definition init :: "int \<Rightarrow> pydate \<Rightarrow> analyzer" where
  "init workers today =
     \<lparr>max_workers = workers, cache = Map.empty, lru = [], requests = [],
      current_date = today\<rparr>"

text \<open>
  \<open>fetch_api_data\<close> under \<open>lru_cache(maxsize=128)\<close>: a hit returns the stored text, a
  miss sends the GET and stores what the body returns.
\<close>

definition fetch_api_data :: "env \<Rightarrow> analyzer \<Rightarrow> string \<Rightarrow> body \<times> analyzer" where
  "fetch_api_data E s url =
     (case map_of (lru s) url of
        Some b \<Rightarrow> (b, s\<lparr>lru := (url, b) # filter (\<lambda>(u, _). u \<noteq> url) (lru s)\<rparr>)
      | None \<Rightarrow>
          (let b = (case net E (length (requests s)) url of
                      Text t \<Rightarrow> t
                    | RequestException \<Rightarrow> JSON (JObj []))
           in (b, s\<lparr>lru := take 128 ((url, b) # lru s),
                     requests := requests s @ [url]\<rparr>)))"

definition schedule_url :: "string \<Rightarrow> string" where
  "schedule_url team = ''https://api-web.nhle.com/v1/club-schedule-season/'' @ team @ ''/now''"

text \<open>The body of the loop over \<open>games\<close>: the records one game appends.\<close>

definition parse_game :: "env \<Rightarrow> pydate \<Rightarrow> json \<Rightarrow> error + game list" where
  "parse_game E today g =
     (case py_get g ''gameType'' JNull of
        Inl e \<Rightarrow> Inl e
      | Inr game_type \<Rightarrow>
          if py_eq_2 game_type then
            (case py_get g ''startTimeUTC'' (JStr []) of
               Inl e \<Rightarrow> Inl e
             | Inr start_time \<Rightarrow>
                 if truthy start_time then
                   (case start_time of
                      JStr st \<Rightarrow>
                        (case fromisoformat E (replace_Z st) of
                           Some dt \<Rightarrow>
                             if date dt > today then Inr [(dt, split_T_0 st)] else Inr []
                         | None \<Rightarrow> Inr [])
                    | _ \<Rightarrow> Inr [])
                 else Inr [])
          else Inr [])"

fun parse_games :: "env \<Rightarrow> pydate \<Rightarrow> json list \<Rightarrow> game list \<Rightarrow> error + game list" where
  "parse_games E today [] parsed_games = Inr parsed_games"
| "parse_games E today (g # games) parsed_games =
     (case parse_game E today g of
        Inl e \<Rightarrow> Inl e
      | Inr new \<Rightarrow> parse_games E today games (parsed_games @ new))"

text \<open>From \<open>json.loads\<close> to the end of the loop.\<close>

definition parse_schedule :: "env \<Rightarrow> pydate \<Rightarrow> body \<Rightarrow> error + game list" where
  "parse_schedule E today json_data =
     (case json_loads json_data of
        Inl e \<Rightarrow> Inl e
      | Inr schedule_data \<Rightarrow>
          (case py_get schedule_data ''games'' (JArr []) of
             Inl e \<Rightarrow> Inl e
           | Inr games \<Rightarrow>
               (case py_iter games of
                  Inl e \<Rightarrow> Inl e
                | Inr gs \<Rightarrow> parse_games E today gs [])))"

text \<open>
  \<open>get_team_schedule_cached\<close>, as one call runs from its first line to its return with
  no other thread in between. The calls of the thread pools are interleaved; they are
  modelled step by step below.
\<close>

definition get_team_schedule_cached ::
  "env \<Rightarrow> analyzer \<Rightarrow> string \<Rightarrow> (error + game list) \<times> analyzer" where
  "get_team_schedule_cached E s team =
     (case cache s team of
        Some schedule \<Rightarrow> (Inr schedule, s)
      | None \<Rightarrow>
          (let (json_data, s1) = fetch_api_data E s (schedule_url team)
           in case parse_schedule E (current_date s1) json_data of
                Inl e \<Rightarrow> (Inl e, s1)
              | Inr parsed_games \<Rightarrow>
                  (Inr parsed_games, s1\<lparr>cache := (cache s1)(team \<mapsto> parsed_games)\<rparr>)))"

text \<open>Whether a local time is inside the viewing window of its weekday.\<close>

definition viewable :: "datetime \<Rightarrow> bool" where
  "viewable local_time =
     (case map_of VIEWING_WINDOWS_TIME (strftime_A local_time) of
        None \<Rightarrow> False
      | Some (start_time, end_time) \<Rightarrow>
          time_le start_time (time local_time) \<and> time_le (time local_time) end_time)"

text \<open>The loop over the schedule, with its two accumulators.\<close>

fun viewing_loop :: "int \<Rightarrow> game list \<Rightarrow> nat \<Rightarrow> string list \<Rightarrow> error + nat \<times> string list" where
  "viewing_loop tz_delta [] viewable_games game_dates = Inr (viewable_games, game_dates)"
| "viewing_loop tz_delta ((utc_datetime, date_str) # schedule) viewable_games game_dates =
     (case datetime_add utc_datetime tz_delta of
        Inl e \<Rightarrow> Inl e
      | Inr local_time \<Rightarrow>
          if viewable local_time
          then viewing_loop tz_delta schedule (viewable_games + 1) (game_dates @ [date_str])
          else viewing_loop tz_delta schedule viewable_games game_dates)"

text \<open>Lines 116 to 134: what \<open>analyze_team_viewing_time\<close> makes of the schedule it got.\<close>

definition viewing_time :: "string \<Rightarrow> game list \<Rightarrow> int \<Rightarrow> error + row" where
  "viewing_time team schedule timezone_offset =
     (case timedelta_hours timezone_offset of
        Inl e \<Rightarrow> Inl e
      | Inr tz_delta \<Rightarrow>
          (case viewing_loop tz_delta schedule 0 [] of
             Inl e \<Rightarrow> Inl e
           | Inr (viewable_games, game_dates) \<Rightarrow> Inr (team, viewable_games, game_dates)))"

definition analyze_team_viewing_time ::
  "env \<Rightarrow> analyzer \<Rightarrow> string \<Rightarrow> int \<Rightarrow> (error + row) \<times> analyzer" where
  "analyze_team_viewing_time E s team timezone_offset =
     (case get_team_schedule_cached E s team of
        (Inl e, s1) \<Rightarrow> (Inl e, s1)
      | (Inr schedule, s1) \<Rightarrow> (viewing_time team schedule timezone_offset, s1))"

subsection \<open>Concurrent calls\<close>

text \<open>
  The thread pools run calls of \<open>get_team_schedule_cached\<close> at the same time on the one
  analyzer. A call reaches the shared state in five places, each of them atomic: the lookup
  in \<open>self._cache\<close> under the lock (lines 79 to 81), the lookup of \<open>lru_cache\<close>, the GET
  (line 67), the insertion of \<open>lru_cache\<close>, and the store under the lock (lines 104 and
  105, with the parsing before it, which reads no shared state but \<open>current_date\<close>).
  Between two of them the calls of other threads may run. A \<open>call\<close> says which of them a
  call is about to do, or what it returned.
\<close>

datatype call =
    AtCheck string
  | AtLookup string
  | AtRequest string
  | AtInsert string body
  | AtParse string body
  | Returned "error + game list"

text \<open>
  One atomic step of a call. \<open>lru_cache\<close> stores the text only when no other thread stored
  one for the URL while the request was under way.
\<close>

fun step_call :: "env \<Rightarrow> call \<Rightarrow> analyzer \<Rightarrow> call \<times> analyzer" where
  "step_call E (AtCheck team) s =
     (case cache s team of
        Some schedule \<Rightarrow> (Returned (Inr schedule), s)
      | None \<Rightarrow> (AtLookup team, s))"
| "step_call E (AtLookup team) s =
     (case map_of (lru s) (schedule_url team) of
        Some b \<Rightarrow>
          (AtParse team b,
           s\<lparr>lru := (schedule_url team, b) #
                      filter (\<lambda>(u, _). u \<noteq> schedule_url team) (lru s)\<rparr>)
      | None \<Rightarrow> (AtRequest team, s))"
| "step_call E (AtRequest team) s =
     (let b = (case net E (length (requests s)) (schedule_url team) of
                 Text t \<Rightarrow> t
               | RequestException \<Rightarrow> JSON (JObj []))
      in (AtInsert team b, s\<lparr>requests := requests s @ [schedule_url team]\<rparr>))"
| "step_call E (AtInsert team b) s =
     (AtParse team b,
      case map_of (lru s) (schedule_url team) of
        Some b' \<Rightarrow> s
      | None \<Rightarrow> s\<lparr>lru := take 128 ((schedule_url team, b) # lru s)\<rparr>)"
| "step_call E (AtParse team b) s =
     (case parse_schedule E (current_date s) b of
        Inl e \<Rightarrow> (Returned (Inl e), s)
      | Inr parsed_games \<Rightarrow>
          (Returned (Inr parsed_games), s\<lparr>cache := (cache s)(team \<mapsto> parsed_games)\<rparr>))"
| "step_call E (Returned r) s = (Returned r, s)"

text \<open>
  A call left to run alone: five steps take it to its return, and from \<open>AtCheck\<close> they
  do what \<open>get_team_schedule_cached\<close> does (\<open>finish_call_sequential\<close>).
\<close>

fun run_call :: "env \<Rightarrow> nat \<Rightarrow> call \<Rightarrow> analyzer \<Rightarrow> call \<times> analyzer" where
  "run_call E 0 c s = (c, s)"
| "run_call E (Suc n) c s = (case step_call E c s of (c', s') \<Rightarrow> run_call E n c' s')"

definition finish_call :: "env \<Rightarrow> call \<Rightarrow> analyzer \<Rightarrow> call \<times> analyzer" where
  "finish_call E c s = run_call E 5 c s"

text \<open>
  A task is a future of a ranking: the offset of the ranking and the team, and where the
  call of \<open>get_team_schedule_cached\<close> in \<open>process_team\<close> stands. The tasks of a pool run
  interleaved: a schedule names, step by step, the task that moves next. When the schedule
  is at its end the tasks still running are run to their return, one after the other; so
  every schedule is a run of the pool, and every run of the pool has a schedule. The
  schedules are not limited by the number of workers: a pool with fewer workers has fewer
  runs, all of them among these.
\<close>

type_synonym task = "(int \<times> string) \<times> call"

fun step_task :: "env \<Rightarrow> int \<times> string \<Rightarrow> task list \<Rightarrow> analyzer \<Rightarrow> task list \<times> analyzer" where
  "step_task E l [] s = ([], s)"
| "step_task E l ((l', c) # pool) s =
     (if l = l'
      then (case step_call E c s of (c', s') \<Rightarrow> ((l', c') # pool, s'))
      else (case step_task E l pool s of (pool', s') \<Rightarrow> ((l', c) # pool', s')))"

fun run_tasks ::
  "env \<Rightarrow> (int \<times> string) list \<Rightarrow> task list \<Rightarrow> analyzer \<Rightarrow> task list \<times> analyzer" where
  "run_tasks E [] pool s = (pool, s)"
| "run_tasks E (l # schedule) pool s =
     (case step_task E l pool s of (pool', s') \<Rightarrow> run_tasks E schedule pool' s')"

fun finish_tasks :: "env \<Rightarrow> task list \<Rightarrow> analyzer \<Rightarrow> task list \<times> analyzer" where
  "finish_tasks E [] s = ([], s)"
| "finish_tasks E ((l, c) # pool) s =
     (case finish_call E c s of
        (c', s') \<Rightarrow> (case finish_tasks E pool s' of (pool', s'') \<Rightarrow> ((l, c') # pool', s'')))"

definition execute ::
  "env \<Rightarrow> (int \<times> string) list \<Rightarrow> task list \<Rightarrow> analyzer \<Rightarrow> task list \<times> analyzer" where
  "execute E schedule pool s =
     (case run_tasks E schedule pool s of (pool', s') \<Rightarrow> finish_tasks E pool' s')"

subsection \<open>Ranking the teams of one timezone\<close>

text \<open>
  \<open>sorted(xs, key=key, reverse=True)\<close>: the list is reversed, sorted by a stable
  ascending sort and reversed again, so that equal keys keep the order of \<open>xs\<close>.
\<close>

definition py_sorted_reverse :: "('a \<Rightarrow> 'k::linorder) \<Rightarrow> 'a list \<Rightarrow> 'a list" where
  "py_sorted_reverse key xs = rev (sort_key key (rev xs))"

text \<open>
  The futures submitted at line 149. \<open>ThreadPoolExecutor(max_workers=n)\<close> raises
  \<open>ValueError\<close> for \<open>n \<le> 0\<close> at line 147, before any future is submitted.
\<close>

definition rank_tasks :: "int \<Rightarrow> task list" where
  "rank_tasks timezone_offset = map (\<lambda>team. ((timezone_offset, team), AtCheck team)) team_list"

definition submitted :: "analyzer \<Rightarrow> int \<Rightarrow> task list" where
  "submitted s timezone_offset = (if max_workers s \<le> 0 then [] else rank_tasks timezone_offset)"

text \<open>
  \<open>future.result()\<close> for the future of a team: what \<open>analyze_team_viewing_time\<close> returns
  or raises once its call of \<open>get_team_schedule_cached\<close> has returned.
\<close>

fun future_result :: "int \<Rightarrow> string \<Rightarrow> call \<Rightarrow> (error + row) option" where
  "future_result timezone_offset team (Returned (Inl e)) = Some (Inl e)"
| "future_result timezone_offset team (Returned (Inr schedule)) =
     Some (viewing_time team schedule timezone_offset)"
| "future_result timezone_offset team _ = None"

text \<open>
  The loop over \<open>as_completed(future_to_team)\<close>: \<open>completed\<close> lists the teams in the order
  in which the loop receives their futures. \<open>as_completed\<close> waits for every future, and
  yields those already finished in the iteration order of a set of futures and the others
  as they finish, so the order is any order of the teams. A future that raised is reported
  and leaves no row.
\<close>

fun collect_results :: "int \<Rightarrow> task list \<Rightarrow> string list \<Rightarrow> row list \<Rightarrow> row list" where
  "collect_results timezone_offset pool [] team_rankings = team_rankings"
| "collect_results timezone_offset pool (team # completed) team_rankings =
     (case map_of pool (timezone_offset, team) of
        None \<Rightarrow> collect_results timezone_offset pool completed team_rankings
      | Some c \<Rightarrow>
          (case future_result timezone_offset team c of
             Some (Inr result) \<Rightarrow>
               collect_results timezone_offset pool completed (team_rankings @ [result])
           | _ \<Rightarrow> collect_results timezone_offset pool completed team_rankings))"

text \<open>What a ranking returns or raises, given its futures after the pool has run them.\<close>

definition rank_outcome :: "analyzer \<Rightarrow> int \<Rightarrow> task list \<Rightarrow> string list \<Rightarrow> error + row list" where
  "rank_outcome s timezone_offset pool completed =
     (if max_workers s \<le> 0 then Inl ValueError
      else Inr (py_sorted_reverse (\<lambda>x. fst (snd x))
                  (collect_results timezone_offset pool completed [])))"

text \<open>One ranking, with no other ranking running beside it.\<close>

definition rank_teams_by_viewing_availability_parallel ::
  "env \<Rightarrow> analyzer \<Rightarrow> int \<Rightarrow> (int \<times> string) list \<Rightarrow> string list \<Rightarrow>
   (error + row list) \<times> analyzer" where
  "rank_teams_by_viewing_availability_parallel E s timezone_offset schedule completed =
     (case execute E schedule (submitted s timezone_offset) s of
        (pool, s1) \<Rightarrow> (rank_outcome s timezone_offset pool completed, s1))"

subsection \<open>All timezones\<close>

text \<open>\<open>d[k] = v\<close> on a dict kept as the list of its items in insertion order.\<close>

fun dict_set :: "'k \<Rightarrow> 'v \<Rightarrow> ('k \<times> 'v) list \<Rightarrow> ('k \<times> 'v) list" where
  "dict_set k v [] = [(k, v)]"
| "dict_set k v ((k', v') # d) =
     (if k = k' then (k, v) # d else (k', v') # dict_set k v d)"

text \<open>\<open>str(n)\<close> for \<open>n \<ge> 0\<close> and the format \<open>f"{i:+d}"\<close>.\<close>

fun str_nat :: "nat \<Rightarrow> string" where
  "str_nat n =
     (if n < 10 then [''0123456789'' ! n]
      else str_nat (n div 10) @ [''0123456789'' ! (n mod 10)])"

declare str_nat.simps [simp del]

definition format_plus_d :: "int \<Rightarrow> string" where
  "format_plus_d i =
     (if i < 0 then CHR ''-'' # str_nat (nat (- i)) else CHR ''+'' # str_nat (nat i))"

definition timezone_key :: "int \<Rightarrow> string" where
  "timezone_key tz_offset = ''UTC'' @ format_plus_d tz_offset"

definition timezone_range :: "int list" where
  "timezone_range = [-12..12]"

text \<open>The loop of \<open>process_timezone\<close> over \<open>range(min(top_n_teams, len(team_rankings)))\<close>.\<close>

definition top_teams :: "int \<Rightarrow> row list \<Rightarrow> (string \<times> nat) list" where
  "top_teams top_n_teams team_rankings =
     fold (\<lambda>i result.
             case team_rankings ! i of
               (team_name, game_count, _) \<Rightarrow> dict_set team_name game_count result)
          [0..<nat (min top_n_teams (int (length team_rankings)))] []"

text \<open>\<open>process_timezone\<close>, given the futures of all rankings after the pools have run them.\<close>

definition process_timezone ::
  "analyzer \<Rightarrow> int \<Rightarrow> task list \<Rightarrow> int \<Rightarrow> string list \<Rightarrow>
   error + int \<times> (string \<times> nat) list" where
  "process_timezone s top_n_teams pool tz_offset completed =
     (case rank_outcome s tz_offset pool completed of
        Inl e \<Rightarrow> Inl e
      | Inr team_rankings \<Rightarrow> Inr (tz_offset, top_teams top_n_teams team_rankings))"

text \<open>
  The loop over \<open>as_completed(future_to_tz)\<close>: \<open>tz_completed\<close> lists the offsets in the
  order in which the loop receives their futures, and \<open>team_completed tz\<close> is the order in
  which the ranking for \<open>tz\<close> receives the futures of its teams. A timezone whose future
  raised is reported and leaves no entry.
\<close>

fun collect_timezones ::
  "analyzer \<Rightarrow> int \<Rightarrow> task list \<Rightarrow> (int \<Rightarrow> string list) \<Rightarrow> int list \<Rightarrow>
   (string \<times> (string \<times> nat) list) list \<Rightarrow> (string \<times> (string \<times> nat) list) list" where
  "collect_timezones s top_n_teams pool team_completed [] timezone_analysis = timezone_analysis"
| "collect_timezones s top_n_teams pool team_completed (tz # tz_completed) timezone_analysis =
     (case process_timezone s top_n_teams pool tz (team_completed tz) of
        Inl exc \<Rightarrow>
          collect_timezones s top_n_teams pool team_completed tz_completed timezone_analysis
      | Inr (tz_offset, team_data) \<Rightarrow>
          collect_timezones s top_n_teams pool team_completed tz_completed
            (dict_set (timezone_key tz_offset) team_data timezone_analysis))"

text \<open>
  The 25 rankings run at the same time on the one analyzer (8 workers, each ranking with a
  pool of its own): their futures are the tasks of one execution, whose schedule interleaves
  the calls of all the timezones.
\<close>

definition generate_timezone_analysis_parallel ::
  "env \<Rightarrow> analyzer \<Rightarrow> int \<Rightarrow> (int \<times> string) list \<Rightarrow> (int \<Rightarrow> string list) \<Rightarrow> int list \<Rightarrow>
   (string \<times> (string \<times> nat) list) list \<times> analyzer" where
  "generate_timezone_analysis_parallel E s top_n_teams schedule team_completed tz_completed =
     (case execute E schedule (concat (map (submitted s) timezone_range)) s of
        (pool, s1) \<Rightarrow>
          (collect_timezones s top_n_teams pool team_completed tz_completed [], s1))"

section \<open>The specification's notions\<close>

text \<open>
  The specification speaks of instants, not of date and time fields. An instant is counted
  here in whole seconds (second 86400 begins 0001-01-01), with the microseconds beside it.
\<close>

definition time_seconds :: "pytime \<Rightarrow> int" where
  "time_seconds t = int (hour t * 3600 + minute t * 60 + second t)"

definition instant_seconds :: "datetime \<Rightarrow> int" where
  "instant_seconds dt = date dt * 86400 + time_seconds (time dt)"

text \<open>\<open>local_instant = utc_instant + offset hours\<close>\<close>

definition spec_local_instant :: "datetime \<Rightarrow> int \<Rightarrow> int" where
  "spec_local_instant utc_instant offset = instant_seconds utc_instant + offset * 3600"

text \<open>The weekday name of the day an instant falls on.\<close>

definition spec_weekday_name :: "int \<Rightarrow> string" where
  "spec_weekday_name local_instant = DAY_NAMES ! nat ((local_instant div 86400 + 6) mod 7)"

text \<open>A time of day (seconds since midnight, microseconds) within \<open>[start, end]\<close>, inclusive.\<close>

definition spec_within :: "pytime \<Rightarrow> int \<Rightarrow> nat \<Rightarrow> pytime \<Rightarrow> bool" where
  "spec_within start tod us end =
     ((time_seconds start < tod \<or> (time_seconds start = tod \<and> microsecond start \<le> us)) \<and>
      (tod < time_seconds end \<or> (tod = time_seconds end \<and> us \<le> microsecond end)))"

text \<open>
  A game is counted when the weekday of its local instant has a viewing window and the local
  time of day is within it.
\<close>

definition spec_counted :: "int \<Rightarrow> game \<Rightarrow> bool" where
  "spec_counted offset g =
     (let local_instant = spec_local_instant (fst g) offset
      in case map_of VIEWING_WINDOWS_TIME (spec_weekday_name local_instant) of
           None \<Rightarrow> False
         | Some (start, end) \<Rightarrow>
             spec_within start (local_instant mod 86400) (microsecond (time (fst g))) end)"

text \<open>The local instant is a day a \<open>datetime\<close> can hold (0001-01-01 to 9999-12-31).\<close>

definition spec_representable :: "int \<Rightarrow> game \<Rightarrow> bool" where
  "spec_representable offset g =
     (let day = spec_local_instant (fst g) offset div 86400 in 0 < day \<and> day \<le> MAXORDINAL)"

text \<open>
  \<open>evaluate(schedule, offset)\<close>: the row of a team, or nothing when a local instant cannot
  be represented.
\<close>

definition spec_evaluate :: "string \<Rightarrow> game list \<Rightarrow> int \<Rightarrow> row option" where
  "spec_evaluate team schedule offset =
     (if \<bar>offset div 24\<bar> \<le> 999999999 \<and> list_all (spec_representable offset) schedule
      then Some (team, length (filter (spec_counted offset) schedule),
                 map snd (filter (spec_counted offset) schedule))
      else None)"

definition viewable_count :: "row \<Rightarrow> nat" where
  "viewable_count r = fst (snd r)"

text \<open>The rows of the teams of a list, in the order of the list, by their schedules.\<close>

definition spec_rows :: "(string \<Rightarrow> game list) \<Rightarrow> int \<Rightarrow> string list \<Rightarrow> row list" where
  "spec_rows schedule_of offset teams =
     List.map_filter (\<lambda>team. spec_evaluate team (schedule_of team) offset) teams"

text \<open>
  A schedule snapshot: the analyzer with the schedule of every team of its list in the
  cache, as \<open>warm_cache\<close> leaves it.
\<close>

definition snapshot :: "analyzer \<Rightarrow> (string \<Rightarrow> game list) \<Rightarrow> analyzer" where
  "snapshot s schedule_of =
     s\<lparr>cache := (\<lambda>team. if team \<in> set team_list then Some (schedule_of team) else None)\<rparr>"

text \<open>
  The parser's filter in the specification's words: a game entry is retained when its
  \<open>gameType\<close> equals 2, its \<open>startTimeUTC\<close> parses, and the date of the parsed time is
  strictly after the date the process started.
\<close>

fun is_object :: "json \<Rightarrow> bool" where
  "is_object (JObj items) = True"
| "is_object _ = False"

fun field :: "json \<Rightarrow> string \<Rightarrow> json option" where
  "field (JObj items) key = map_of items key"
| "field _ key = None"

definition is_regular_season :: "json \<Rightarrow> bool" where
  "is_regular_season g =
     (case field g ''gameType'' of None \<Rightarrow> False | Some game_type \<Rightarrow> py_eq_2 game_type)"

definition raw_start_time :: "json \<Rightarrow> string option" where
  "raw_start_time g =
     (case field g ''startTimeUTC'' of Some (JStr st) \<Rightarrow> Some st | _ \<Rightarrow> None)"

definition parsed_start_time :: "env \<Rightarrow> json \<Rightarrow> datetime option" where
  "parsed_start_time E g =
     (case raw_start_time g of None \<Rightarrow> None | Some st \<Rightarrow> fromisoformat E (replace_Z st))"

definition spec_retained :: "env \<Rightarrow> pydate \<Rightarrow> json \<Rightarrow> bool" where
  "spec_retained E today g =
     (is_regular_season g \<and>
      (case parsed_start_time E g of None \<Rightarrow> False | Some dt \<Rightarrow> today < date dt))"

definition spec_record :: "env \<Rightarrow> json \<Rightarrow> game" where
  "spec_record E g = (the (parsed_start_time E g), split_T_0 (the (raw_start_time g)))"

definition spec_parse :: "env \<Rightarrow> pydate \<Rightarrow> json list \<Rightarrow> game list" where
  "spec_parse E today games = map (spec_record E) (filter (spec_retained E today) games)"

text \<open>The labels \<open>UTC-12\<close> to \<open>UTC+12\<close>, and the leaderboard entry of a ranking.\<close>

definition spec_labels :: "string list" where
  "spec_labels =
     [''UTC-12'', ''UTC-11'', ''UTC-10'', ''UTC-9'', ''UTC-8'', ''UTC-7'', ''UTC-6'', ''UTC-5'',
      ''UTC-4'', ''UTC-3'', ''UTC-2'', ''UTC-1'', ''UTC+0'', ''UTC+1'', ''UTC+2'', ''UTC+3'',
      ''UTC+4'', ''UTC+5'', ''UTC+6'', ''UTC+7'', ''UTC+8'', ''UTC+9'', ''UTC+10'', ''UTC+11'',
      ''UTC+12'']"

definition spec_top :: "int \<Rightarrow> row list \<Rightarrow> (string \<times> nat) list" where
  "spec_top top_n ranking = map (\<lambda>r. (fst r, viewable_count r)) (take (nat top_n) ranking)"

text \<open>The rows of a ranking that was returned; none when the call raised.\<close>

definition rows_of :: "error + row list \<Rightarrow> row list" where
  "rows_of r = (case r of Inl e \<Rightarrow> [] | Inr team_rankings \<Rightarrow> team_rankings)"

text \<open>
  The ranking that \<open>process_timezone\<close> receives for an offset in a run of
  \<open>generate_timezone_analysis_parallel\<close>.
\<close>

definition timezone_ranking ::
  "env \<Rightarrow> analyzer \<Rightarrow> (int \<times> string) list \<Rightarrow> (int \<Rightarrow> string list) \<Rightarrow> int \<Rightarrow> row list" where
  "timezone_ranking E s schedule team_completed tz =
     rows_of (rank_outcome s tz
                (fst (execute E schedule (concat (map (submitted s) timezone_range)) s))
                (team_completed tz))"

text \<open>
  A pool over a schedule snapshot: every team of a task is in the cache, and every task is
  about to look its team up or has returned the schedule of the snapshot.
\<close>

definition settled :: "(string \<Rightarrow> game list) \<Rightarrow> analyzer \<Rightarrow> task list \<Rightarrow> bool" where
  "settled schedule_of s pool =
     list_all (\<lambda>(l, c). cache s (snd l) = Some (schedule_of (snd l)) \<and>
                        (c = AtCheck (snd l) \<or> c = Returned (Inr (schedule_of (snd l))))) pool"

text \<open>What the loop over \<open>as_completed\<close> gets from the future of a team.\<close>

definition outcome :: "int \<Rightarrow> task list \<Rightarrow> string \<Rightarrow> (error + row) option" where
  "outcome timezone_offset pool team =
     (case map_of pool (timezone_offset, team) of
        None \<Rightarrow> None
      | Some c \<Rightarrow> future_result timezone_offset team c)"

text \<open>The analyzer after a sequence of calls of \<open>get_team_schedule_cached\<close>.\<close>

definition calls :: "env \<Rightarrow> analyzer \<Rightarrow> string list \<Rightarrow> analyzer" where
  "calls E s teams = fold (\<lambda>team s1. snd (get_team_schedule_cached E s1 team)) teams s"

section \<open>Scenarios\<close>

text \<open>
  The end-to-end scenario of the specification: the API answers every request with one
  regular-season game at 2025-01-06T23:00:00Z. \<open>scenario_fromisoformat\<close> lists what
  \<open>datetime.fromisoformat\<close> returns on the strings of the scenarios.
\<close>

definition scenario_payload :: body where
  "scenario_payload =
     JSON (JObj [(''games'',
       JArr [JObj [(''gameType'', JInt 2), (''startTimeUTC'', JStr ''2025-01-06T23:00:00Z'')]])])"

definition scenario_fromisoformat :: "string \<Rightarrow> datetime option" where
  "scenario_fromisoformat s =
     (if s = ''2025-01-06T23:00:00+00:00'' then Some (mk_datetime 2025 1 6 23 0 0)
      else if s = ''2025-01-07T02:00:00+00:00'' then Some (mk_datetime 2025 1 7 2 0 0)
      else if s = ''2025-01-01T23:00:00+00:00'' then Some (mk_datetime 2025 1 1 23 0 0)
      else if s = ''2024-12-31T23:00:00+00:00'' then Some (mk_datetime 2024 12 31 23 0 0)
      else None)"

definition scenario_env :: env where
  "scenario_env =
     \<lparr>net = (\<lambda>n url. Text scenario_payload), fromisoformat = scenario_fromisoformat\<rparr>"

text \<open>An API whose answers are not JSON, and one whose requests all fail.\<close>

definition malformed_env :: env where
  "malformed_env = \<lparr>net = (\<lambda>n url. Text NotJSON), fromisoformat = scenario_fromisoformat\<rparr>"

definition offline_env :: env where
  "offline_env = \<lparr>net = (\<lambda>n url. RequestException), fromisoformat = scenario_fromisoformat\<rparr>"

text \<open>An API that answers with one regular-season game at 2025-01-07T02:00:00Z.\<close>

definition late_game_payload :: body where
  "late_game_payload =
     JSON (JObj [(''games'',
       JArr [JObj [(''gameType'', JInt 2), (''startTimeUTC'', JStr ''2025-01-07T02:00:00Z'')]])])"

definition late_game_env :: env where
  "late_game_env =
     \<lparr>net = (\<lambda>n url. Text late_game_payload), fromisoformat = scenario_fromisoformat\<rparr>"

text \<open>
  A games list with a pre-season game, a start time that does not parse, a game on the day
  the process started, a past game, and two future regular-season games.
\<close>

definition mixed_games :: "json list" where
  "mixed_games =
     [JObj [(''gameType'', JInt 1), (''startTimeUTC'', JStr ''2025-01-06T23:00:00Z'')],
      JObj [(''gameType'', JInt 2), (''startTimeUTC'', JStr ''2025-01-06T23:00:00Z'')],
      JObj [(''gameType'', JInt 2), (''startTimeUTC'', JStr ''soon'')],
      JObj [(''gameType'', JInt 2), (''startTimeUTC'', JStr ''2025-01-01T23:00:00Z'')],
      JObj [(''gameType'', JInt 2), (''startTimeUTC'', JStr ''2024-12-31T23:00:00Z'')],
      JObj [(''gameType'', JInt 2)],
      JObj [(''gameType'', JInt 2), (''startTimeUTC'', JStr ''2025-01-07T02:00:00Z'')]]"

text \<open>An analyzer started on 2025-01-01.\<close>

definition scenario_start :: analyzer where
  "scenario_start = init 12 (ymd2ord 2025 1 1)"

text \<open>The analyzer in the off season: the cache holds an empty schedule for every team.\<close>

definition off_season :: analyzer where
  "off_season = snapshot scenario_start (\<lambda>team. [])"

text \<open>An analyzer whose cache holds a given schedule for a team.\<close>

definition with_schedule :: "analyzer \<Rightarrow> string \<Rightarrow> game list \<Rightarrow> analyzer" where
  "with_schedule s team schedule = s\<lparr>cache := (cache s)(team \<mapsto> schedule)\<rparr>"

text \<open>
  Two seasons: one in which only Toronto has a game left, the game of the scenario, and one
  in which the team at place \<open>i\<close> of the team list has \<open>i\<close> games left, so that no two teams
  have the same number of games.
\<close>

definition scenario_game :: game where
  "scenario_game = (mk_datetime 2025 1 6 23 0 0, ''2025-01-06'')"

definition toronto_only :: "string \<Rightarrow> game list" where
  "toronto_only team = (if team = ''TOR'' then [scenario_game] else [])"

definition position :: "string \<Rightarrow> nat" where
  "position team = length (takeWhile (\<lambda>t. t \<noteq> team) team_list)"

definition ladder :: "string \<Rightarrow> game list" where
  "ladder team = replicate (position team) scenario_game"

text \<open>
  Completion orders: the futures of every ranking complete in the order of the team list;
  and the order of the team list with its first two teams exchanged.
\<close>

definition in_submission_order :: "int \<Rightarrow> string list" where
  "in_submission_order tz = team_list"

definition first_two_exchanged :: "string list" where
  "first_two_exchanged = team_list ! 1 # team_list ! 0 # drop 2 team_list"

text \<open>An analyzer constructed with \<open>max_workers=0\<close>, and one with a single worker.\<close>

definition no_workers :: analyzer where
  "no_workers = init 0 (ymd2ord 2025 1 1)"

definition one_worker :: analyzer where
  "one_worker = init 1 (ymd2ord 2025 1 1)"

text \<open>An API whose games list holds the game of the scenario and a \<open>null\<close>.\<close>

definition null_entry_payload :: body where
  "null_entry_payload =
     JSON (JObj [(''games'',
       JArr [JObj [(''gameType'', JInt 2), (''startTimeUTC'', JStr ''2025-01-06T23:00:00Z'')],
             JNull])])"

definition null_entry_env :: env where
  "null_entry_env =
     \<lparr>net = (\<lambda>n url. Text null_entry_payload), fromisoformat = scenario_fromisoformat\<rparr>"

text \<open>An API that answers the first request of the run, after which every request fails.\<close>

definition flaky_env :: env where
  "flaky_env =
     \<lparr>net = (\<lambda>n url. if n = 0 then Text scenario_payload else RequestException),
      fromisoformat = scenario_fromisoformat\<rparr>"

text \<open>
  Two callers of \<open>get_team_schedule_cached('TOR')\<close> at the same time: the futures for
  Toronto of the rankings for UTC-12 and UTC-11, which
  \<open>generate_timezone_analysis_parallel\<close> runs side by side, moving in turns.
\<close>

definition two_callers :: "task list" where
  "two_callers = [((-12, ''TOR''), AtCheck ''TOR''), ((-11, ''TOR''), AtCheck ''TOR'')]"

definition in_turns :: "(int \<times> string) list" where
  "in_turns =
     [(-12, ''TOR''), (-11, ''TOR''), (-12, ''TOR''), (-11, ''TOR''), (-12, ''TOR''),
      (-11, ''TOR''), (-12, ''TOR''), (-11, ''TOR''), (-12, ''TOR''), (-11, ''TOR'')]"

section \<open>The viewability evaluator\<close>

lemmas calendar_defs =
  mk_datetime_def mk_time_def ymd2ord_def days_before_year_def days_before_month_def
  DAYS_BEFORE_MONTH_def is_leap_def MAXORDINAL_def

lemmas window_defs =
  VIEWING_WINDOWS_TIME_def DAY_NAMES_def strftime_A_def weekday_def viewable_def time_le_def

lemmas spec_defs =
  spec_counted_def spec_representable_def spec_local_instant_def spec_weekday_name_def
  spec_within_def instant_seconds_def time_seconds_def

lemmas fetch_defs =
  get_team_schedule_cached_def fetch_api_data_def parse_schedule_def parse_game_def
  replace_Z_def split_T_0_def schedule_url_def

lemmas scenario_defs =
  scenario_env_def scenario_payload_def scenario_fromisoformat_def scenario_start_def init_def
  malformed_env_def offline_env_def late_game_env_def late_game_payload_def

lemmas parse_defs =
  spec_parse_def spec_record_def spec_retained_def parsed_start_time_def raw_start_time_def
  is_regular_season_def

lemma hms_recompose: "(r::nat) div 3600 * 3600 + r mod 3600 div 60 * 60 + r mod 60 = r"
proof -
  have "r mod 3600 mod 60 = r mod 60"
    by (simp add: mod_mod_cancel)
  then have "r mod 3600 div 60 * 60 + r mod 60 = r mod 3600"
    by (metis div_mult_mod_eq)
  then show ?thesis
    by (simp add: add.assoc)
qed

lemma datetime_add_cases:
  fixes dt delta
  defines "s \<equiv> time_seconds (time dt) + delta"
  defines "r \<equiv> nat (s mod 86400)"
  shows "datetime_add dt delta =
     (if 0 < date dt + s div 86400 \<and> date dt + s div 86400 \<le> MAXORDINAL
      then Inr \<lparr>date = date dt + s div 86400,
                time = \<lparr>hour = r div 3600, minute = r mod 3600 div 60,
                        second = r mod 60, microsecond = microsecond (time dt)\<rparr>\<rparr>
      else Inl OverflowError)"
  unfolding datetime_add_def Let_def s_def r_def time_seconds_def by simp

lemma instant_div:
  "instant_seconds dt + delta = date dt * 86400 + (time_seconds (time dt) + delta)"
  by (simp add: instant_seconds_def)

lemma local_day:
  "(instant_seconds dt + delta) div 86400 = date dt + (time_seconds (time dt) + delta) div 86400"
  by (simp add: instant_div)

lemma local_tod:
  "(instant_seconds dt + delta) mod 86400 = (time_seconds (time dt) + delta) mod 86400"
  by (simp add: instant_div)

lemma datetime_add_Inl: "datetime_add dt delta = Inl e \<Longrightarrow> e = OverflowError"
  by (simp add: datetime_add_cases split: if_splits)

lemma datetime_add_overflow:
  "(datetime_add (fst g) (offset * 3600) = Inl OverflowError) = (\<not> spec_representable offset g)"
  by (simp add: datetime_add_cases spec_representable_def spec_local_instant_def local_day Let_def)

lemma datetime_add_Inr:
  assumes "datetime_add dt delta = Inr l"
  shows "date l = (instant_seconds dt + delta) div 86400"
    and "time_seconds (time l) = (instant_seconds dt + delta) mod 86400"
    and "microsecond (time l) = microsecond (time dt)"
    and "minute (time l) < 60" and "second (time l) < 60" and "hour (time l) < 24"
proof -
  define s where "s = time_seconds (time dt) + delta"
  define r where "r = nat (s mod 86400)"
  have r: "int r = s mod 86400" "r < 86400"
    by (simp_all add: r_def nat_less_iff)
  from assms have l: "l = \<lparr>date = date dt + s div 86400,
                 time = \<lparr>hour = r div 3600, minute = r mod 3600 div 60,
                         second = r mod 60, microsecond = microsecond (time dt)\<rparr>\<rparr>"
    by (simp add: datetime_add_cases s_def r_def split: if_splits)
  show "date l = (instant_seconds dt + delta) div 86400"
    by (simp add: l local_day s_def)
  have "time_seconds (time l) = int (r div 3600 * 3600 + r mod 3600 div 60 * 60 + r mod 60)"
    by (simp add: l time_seconds_def)
  also have "\<dots> = s mod 86400"
    by (simp only: hms_recompose r)
  finally show "time_seconds (time l) = (instant_seconds dt + delta) mod 86400"
    by (simp add: local_tod s_def)
  show "microsecond (time l) = microsecond (time dt)" by (simp add: l)
  show "minute (time l) < 60" by (simp add: l)
  show "second (time l) < 60" by (simp add: l)
  from r(2) show "hour (time l) < 24" by (simp add: l)
qed

lemma time_le_seconds:
  assumes "minute a < 60" "second a < 60" "minute b < 60" "second b < 60"
  shows "time_le a b =
     (time_seconds a < time_seconds b \<or>
      (time_seconds a = time_seconds b \<and> microsecond a \<le> microsecond b))"
proof -
  consider (hlt) "hour a < hour b" | (hgt) "hour b < hour a" | (heq) "hour a = hour b"
    by linarith
  then show ?thesis
  proof cases
    case hlt
    with assms show ?thesis by (simp add: time_le_def time_seconds_def)
  next
    case hgt
    with assms show ?thesis by (simp add: time_le_def time_seconds_def)
  next
    case heq
    consider (mlt) "minute a < minute b" | (mgt) "minute b < minute a"
      | (meq) "minute a = minute b"
      by linarith
    then show ?thesis
    proof cases
      case mlt
      with heq assms show ?thesis by (simp add: time_le_def time_seconds_def)
    next
      case mgt
      with heq assms show ?thesis by (simp add: time_le_def time_seconds_def)
    next
      case meq
      with heq assms show ?thesis by (auto simp add: time_le_def time_seconds_def)
    qed
  qed
qed

lemma windows_valid:
  assumes "map_of VIEWING_WINDOWS_TIME d = Some (a, b)"
  shows "minute a < 60 \<and> second a < 60 \<and> minute b < 60 \<and> second b < 60"
  using assms
  by (auto simp add: VIEWING_WINDOWS_TIME_def mk_time_def split: if_splits)

lemma viewable_spec:
  assumes "datetime_add (fst g) (offset * 3600) = Inr l"
  shows "viewable l = spec_counted offset g"
proof -
  note f = datetime_add_Inr [OF assms]
  have wd: "strftime_A l = spec_weekday_name (spec_local_instant (fst g) offset)"
    by (simp add: strftime_A_def weekday_def spec_weekday_name_def spec_local_instant_def f(1))
  show ?thesis
  proof (cases "map_of VIEWING_WINDOWS_TIME (strftime_A l)")
    case None
    then show ?thesis
      using wd by (simp add: viewable_def spec_counted_def Let_def)
  next
    case (Some w)
    obtain a b where w: "w = (a, b)" by (cases w)
    from Some w windows_valid have v: "minute a < 60" "second a < 60" "minute b < 60" "second b < 60"
      by blast+
    have "viewable l = (time_le a (time l) \<and> time_le (time l) b)"
      by (simp add: viewable_def Some w)
    also have "\<dots> = spec_within a (time_seconds (time l)) (microsecond (time l)) b"
      by (simp add: time_le_seconds v f(4,5) spec_within_def)
    also have "\<dots> = spec_counted offset g"
      using Some w wd by (simp add: spec_counted_def Let_def f(2,3) spec_local_instant_def)
    finally show ?thesis .
  qed
qed

lemma viewing_loop_spec:
  "viewing_loop (offset * 3600) schedule n ds =
     (if \<forall>g\<in>set schedule. spec_representable offset g
      then Inr (n + length (filter (spec_counted offset) schedule),
                ds @ map snd (filter (spec_counted offset) schedule))
      else Inl OverflowError)"
proof (induction schedule arbitrary: n ds)
  case Nil
  show ?case by simp
next
  case (Cons g schedule)
  obtain utc date_str where g: "g = (utc, date_str)" by (cases g)
  show ?case
  proof (cases "datetime_add utc (offset * 3600)")
    case (Inl e)
    then have e: "e = OverflowError" by (rule datetime_add_Inl)
    with Inl have "\<not> spec_representable offset g"
      using datetime_add_overflow [of g offset] by (simp add: g)
    with Inl e show ?thesis by (simp add: g)
  next
    case (Inr l)
    then have rep: "spec_representable offset g"
      using datetime_add_overflow [of g offset] by (simp add: g)
    from Inr have "viewable l = spec_counted offset g"
      using viewable_spec [of g offset l] by (simp add: g)
    with Inr rep show ?thesis
      by (simp add: g Cons.IH)
  qed
qed

lemma viewing_time_spec:
  "viewing_time team schedule offset =
     (if \<bar>offset div 24\<bar> \<le> 999999999 \<and> (\<forall>g\<in>set schedule. spec_representable offset g)
      then Inr (team, length (filter (spec_counted offset) schedule),
                map snd (filter (spec_counted offset) schedule))
      else Inl OverflowError)"
  by (simp add: viewing_time_def timedelta_hours_def viewing_loop_spec)

lemma analyze_team_viewing_time_spec:
  "analyze_team_viewing_time E s team offset =
     (case get_team_schedule_cached E s team of
        (Inl e, s1) \<Rightarrow> (Inl e, s1)
      | (Inr schedule, s1) \<Rightarrow>
          if \<bar>offset div 24\<bar> \<le> 999999999 \<and> (\<forall>g\<in>set schedule. spec_representable offset g)
          then (Inr (team, length (filter (spec_counted offset) schedule),
                     map snd (filter (spec_counted offset) schedule)), s1)
          else (Inl OverflowError, s1))"
  by (simp add: analyze_team_viewing_time_def viewing_time_spec split: prod.splits sum.splits)

lemma get_cached_hit:
  "get_team_schedule_cached E (with_schedule s team schedule) team =
     (Inr schedule, with_schedule s team schedule)"
  by (simp add: get_team_schedule_cached_def with_schedule_def)

lemma analyze_fst:
  "fst (analyze_team_viewing_time E s team offset) =
     (case fst (get_team_schedule_cached E s team) of
        Inl e \<Rightarrow> Inl e
      | Inr schedule \<Rightarrow>
          if \<bar>offset div 24\<bar> \<le> 999999999 \<and> (\<forall>g\<in>set schedule. spec_representable offset g)
          then Inr (team, length (filter (spec_counted offset) schedule),
                    map snd (filter (spec_counted offset) schedule))
          else Inl OverflowError)"
  by (cases "get_team_schedule_cached E s team")
     (simp add: analyze_team_viewing_time_spec split: sum.splits)

lemma scenario_schedule:
  "fst (get_team_schedule_cached scenario_env scenario_start ''TOR'') =
     Inr [(mk_datetime 2025 1 6 23 0 0, ''2025-01-06'')]"
  by (simp add: fetch_defs scenario_defs calendar_defs Let_def)

lemma scenario_minus_5: "spec_counted (-5) (mk_datetime 2025 1 6 23 0 0, d)"
  by (simp add: spec_defs calendar_defs window_defs Let_def)

lemma scenario_plus_9: "\<not> spec_counted 9 (mk_datetime 2025 1 6 23 0 0, d)"
  by (simp add: spec_defs calendar_defs window_defs Let_def)

lemma scenario_representable:
  "spec_representable (-5) (mk_datetime 2025 1 6 23 0 0, d)"
  "spec_representable 9 (mk_datetime 2025 1 6 23 0 0, d)"
  by (simp_all add: spec_defs calendar_defs Let_def)

lemma whole_hour_offsets_representable:
  assumes "- 24 \<le> offset" and "offset \<le> 24"
    and "1 < date (fst g)" and "date (fst g) < MAXORDINAL"
    and "time_seconds (time (fst g)) < 86400"
  shows "spec_representable offset g"
proof -
  define t where "t = time_seconds (time (fst g)) + offset * 3600"
  have t0: "0 \<le> time_seconds (time (fst g))"
    by (simp add: time_seconds_def)
  have lo: "- 86400 \<le> t" and hi: "t \<le> 172799"
    using assms(1,2,5) t0 by (simp_all add: t_def)
  have "(- 86400) div 86400 \<le> t div (86400::int)"
    using lo by (rule zdiv_mono1) simp
  then have a: "- 1 \<le> t div 86400"
    by simp
  have "t div 86400 \<le> 172799 div (86400::int)"
    using hi by (rule zdiv_mono1) simp
  then have b: "t div 86400 \<le> 1"
    by simp
  have "spec_local_instant (fst g) offset div 86400 = date (fst g) + t div 86400"
    by (simp add: spec_local_instant_def local_day t_def)
  then show ?thesis
    using a b assms(3,4) by (simp add: spec_representable_def Let_def)
qed

text \<open>
  Claim C3. For every schedule and every whole-hour offset, \<open>analyze_team_viewing_time\<close>
  takes for each game the local instant \<open>utc_instant + offset\<close> hours, the weekday name of
  that local instant, and counts the game (appending its date string) exactly when that
  weekday has a viewing window and the local time of day is within \<open>[start, end]\<close>, both
  bounds included. The addition is Python's: when a local instant is not a day a \<open>datetime\<close>
  can hold (or the offset is no \<open>timedelta\<close>) it raises \<open>OverflowError\<close>, which the
  equation records; this never happens for offsets from -12 to +12 and games between
  0001-01-02 and 9999-12-30. A game at 2024-01-01T02:00:00Z with offset -5 is bucketed as Sunday
  2023-12-31 21:00, not Monday, and is counted; Monday 15:00:00 and 22:30:00 are inside the
  Monday window, 14:59:59 and 22:30:01 are outside.
\<close>

theorem evaluate_buckets_by_local_time:
  "analyze_team_viewing_time E s team offset =
     (case get_team_schedule_cached E s team of
        (Inl e, s1) \<Rightarrow> (Inl e, s1)
      | (Inr schedule, s1) \<Rightarrow>
          if \<bar>offset div 24\<bar> \<le> 999999999 \<and> (\<forall>g\<in>set schedule. spec_representable offset g)
          then (Inr (team, length (filter (spec_counted offset) schedule),
                     map snd (filter (spec_counted offset) schedule)), s1)
          else (Inl OverflowError, s1)) \<and>
   (- 12 \<le> offset \<and> offset \<le> 12 \<and> 1 < date (fst g) \<and> date (fst g) < MAXORDINAL \<and>
    time_seconds (time (fst g)) < 86400 \<longrightarrow> spec_representable offset g) \<and>
   datetime_add (mk_datetime 2024 1 1 2 0 0) (-5 * 3600) = Inr (mk_datetime 2023 12 31 21 0 0) \<and>
   strftime_A (mk_datetime 2023 12 31 21 0 0) = ''Sunday'' \<and>
   strftime_A (mk_datetime 2024 1 1 2 0 0) = ''Monday'' \<and>
   spec_weekday_name (spec_local_instant (mk_datetime 2024 1 1 2 0 0) (-5)) = ''Sunday'' \<and>
   spec_counted (-5) (mk_datetime 2024 1 1 2 0 0, d) \<and>
   viewable (mk_datetime 2025 1 6 15 0 0) \<and>
   viewable (mk_datetime 2025 1 6 22 30 0) \<and>
   \<not> viewable (mk_datetime 2025 1 6 14 59 59) \<and>
   \<not> viewable (mk_datetime 2025 1 6 22 30 1)"
proof -
  have a: "datetime_add (mk_datetime 2024 1 1 2 0 0) (-5 * 3600) =
      Inr (mk_datetime 2023 12 31 21 0 0)"
    by (simp add: datetime_add_def calendar_defs Let_def)
  have b: "strftime_A (mk_datetime 2023 12 31 21 0 0) = ''Sunday''"
    by (simp add: window_defs calendar_defs)
  have c: "strftime_A (mk_datetime 2024 1 1 2 0 0) = ''Monday''"
    by (simp add: window_defs calendar_defs)
  have d: "spec_weekday_name (spec_local_instant (mk_datetime 2024 1 1 2 0 0) (-5)) = ''Sunday''"
    by (simp add: spec_defs calendar_defs DAY_NAMES_def)
  have e: "spec_counted (-5) (mk_datetime 2024 1 1 2 0 0, d)"
    by (simp add: spec_defs calendar_defs window_defs Let_def)
  have f: "viewable (mk_datetime 2025 1 6 15 0 0)" "viewable (mk_datetime 2025 1 6 22 30 0)"
    "\<not> viewable (mk_datetime 2025 1 6 14 59 59)" "\<not> viewable (mk_datetime 2025 1 6 22 30 1)"
    by (simp_all add: window_defs calendar_defs)
  have r: "- 12 \<le> offset \<and> offset \<le> 12 \<and> 1 < date (fst g) \<and> date (fst g) < MAXORDINAL \<and>
    time_seconds (time (fst g)) < 86400 \<longrightarrow> spec_representable offset g"
    by (simp add: whole_hour_offsets_representable)
  show ?thesis
    using a b c d e f r by (simp only: analyze_team_viewing_time_spec simp_thms)
qed

theorem evaluate_buckets_witness:
  "fst (analyze_team_viewing_time scenario_env
         (with_schedule scenario_start ''TOR'' [(mk_datetime 2024 1 1 2 0 0, ''2024-01-01'')])
         ''TOR'' (-5)) = Inr (''TOR'', 1, [''2024-01-01'']) \<and>
   spec_representable (-5) (mk_datetime 2024 1 1 2 0 0, ''2024-01-01'')"
proof -
  note h = evaluate_buckets_by_local_time
    [of scenario_env
        "with_schedule scenario_start ''TOR'' [(mk_datetime 2024 1 1 2 0 0, ''2024-01-01'')]"
        "''TOR''" "-5" "(mk_datetime 2024 1 1 2 0 0, ''2024-01-01'')"]
  note eq = h [THEN conjunct1]
  note rep = h [THEN conjunct2, THEN conjunct1, rule_format]
  have a: "fst (analyze_team_viewing_time scenario_env
         (with_schedule scenario_start ''TOR'' [(mk_datetime 2024 1 1 2 0 0, ''2024-01-01'')])
         ''TOR'' (-5)) = Inr (''TOR'', 1, [''2024-01-01''])"
    unfolding eq get_cached_hit
    by (simp add: spec_defs calendar_defs window_defs Let_def)
  have b: "spec_representable (-5) (mk_datetime 2024 1 1 2 0 0, ''2024-01-01'')"
    by (rule rep) (simp add: calendar_defs time_seconds_def)
  from a b show ?thesis
    by (rule conjI)
qed

text \<open>
  Claim C8. When the API returns exactly one future regular-season game at
  2025-01-06T23:00:00Z, the evaluation with offset -5 returns \<open>viewable_count = 1\<close> (local
  Monday 18:00, and the Monday window is 15:00 to 22:30), and the evaluation of the same
  schedule with offset +9 returns \<open>viewable_count = 0\<close> (local Tuesday 08:00, and the Tuesday
  window starts at 15:00).
\<close>

theorem scenario_monday_evening:
  "fst (get_team_schedule_cached scenario_env scenario_start ''TOR'') =
     Inr [(mk_datetime 2025 1 6 23 0 0, ''2025-01-06'')] \<and>
   fst (analyze_team_viewing_time scenario_env scenario_start ''TOR'' (-5)) =
     Inr (''TOR'', 1, [''2025-01-06'']) \<and>
   datetime_add (mk_datetime 2025 1 6 23 0 0) (-5 * 3600) = Inr (mk_datetime 2025 1 6 18 0 0) \<and>
   strftime_A (mk_datetime 2025 1 6 18 0 0) = ''Monday'' \<and>
   map_of VIEWING_WINDOWS_TIME ''Monday'' = Some (mk_time 15 0 0, mk_time 22 30 0) \<and>
   fst (analyze_team_viewing_time scenario_env scenario_start ''TOR'' 9) =
     Inr (''TOR'', 0, []) \<and>
   datetime_add (mk_datetime 2025 1 6 23 0 0) (9 * 3600) = Inr (mk_datetime 2025 1 7 8 0 0) \<and>
   strftime_A (mk_datetime 2025 1 7 8 0 0) = ''Tuesday'' \<and>
   map_of VIEWING_WINDOWS_TIME ''Tuesday'' = Some (mk_time 15 0 0, mk_time 22 30 0)"
proof -
  have m: "datetime_add (mk_datetime 2025 1 6 23 0 0) (-5 * 3600) =
      Inr (mk_datetime 2025 1 6 18 0 0)"
    by (simp add: datetime_add_def calendar_defs Let_def)
  have t: "datetime_add (mk_datetime 2025 1 6 23 0 0) (9 * 3600) =
      Inr (mk_datetime 2025 1 7 8 0 0)"
    by (simp add: datetime_add_def calendar_defs Let_def)
  have c1: "fst (analyze_team_viewing_time scenario_env scenario_start ''TOR'' (-5)) =
     Inr (''TOR'', 1, [''2025-01-06''])"
    by (simp add: analyze_fst scenario_schedule scenario_minus_5 scenario_representable)
  have c2: "fst (analyze_team_viewing_time scenario_env scenario_start ''TOR'' 9) =
     Inr (''TOR'', 0, [])"
    by (simp add: analyze_fst scenario_schedule scenario_plus_9 scenario_representable)
  have n1: "strftime_A (mk_datetime 2025 1 6 18 0 0) = ''Monday''"
    by (simp add: window_defs calendar_defs)
  have n2: "strftime_A (mk_datetime 2025 1 7 8 0 0) = ''Tuesday''"
    by (simp add: window_defs calendar_defs)
  have w: "map_of VIEWING_WINDOWS_TIME ''Monday'' = Some (mk_time 15 0 0, mk_time 22 30 0)"
    "map_of VIEWING_WINDOWS_TIME ''Tuesday'' = Some (mk_time 15 0 0, mk_time 22 30 0)"
    by (simp_all add: VIEWING_WINDOWS_TIME_def)
  show ?thesis
    using scenario_schedule m t c1 c2 n1 n2 w by (simp only: simp_thms)
qed

theorem scenario_monday_evening_witness:
  "fst (analyze_team_viewing_time scenario_env scenario_start ''TOR'' (-5)) \<noteq>
   fst (analyze_team_viewing_time scenario_env scenario_start ''TOR'' 9)"
proof -
  note h = scenario_monday_evening
  have a: "fst (analyze_team_viewing_time scenario_env scenario_start ''TOR'' (-5)) =
     Inr (''TOR'', 1, [''2025-01-06''])"
    using h by (simp only: simp_thms)
  have b: "fst (analyze_team_viewing_time scenario_env scenario_start ''TOR'' 9) =
     Inr (''TOR'', 0, [])"
    using h by (simp only: simp_thms)
  show ?thesis
    unfolding a b by simp
qed

text \<open>
  Claim C9. In every result \<open>(team, viewable_games, game_dates)\<close> that
  \<open>analyze_team_viewing_time\<close> returns, \<open>viewable_games\<close> is the length of \<open>game_dates\<close>
  (and the team is the one asked for).
\<close>

theorem count_is_number_of_dates:
  "fst (analyze_team_viewing_time E s team offset) = Inr (t, n, ds) \<Longrightarrow>
     n = length ds \<and> t = team"
  by (auto simp add: analyze_fst split: sum.splits if_splits)

theorem count_is_number_of_dates_witness:
  "fst (analyze_team_viewing_time scenario_env scenario_start ''TOR'' (-5)) =
     Inr (''TOR'', 1, [''2025-01-06'']) \<and> (1::nat) = length [''2025-01-06'']"
proof -
  have h: "fst (analyze_team_viewing_time scenario_env scenario_start ''TOR'' (-5)) =
     Inr (''TOR'', 1, [''2025-01-06''])"
    by (simp add: analyze_fst scenario_schedule scenario_minus_5 scenario_representable)
  from count_is_number_of_dates [OF h] h show ?thesis by simp
qed

section \<open>The thread pools\<close>

lemma run_call_Returned: "run_call E n (Returned r) s = (Returned r, s)"
  by (induction n) simp_all

lemma finish_call_sequential:
  "finish_call E (AtCheck team) s =
     (Returned (fst (get_team_schedule_cached E s team)),
      snd (get_team_schedule_cached E s team))"
proof (cases "cache s team")
  case (Some schedule)
  then show ?thesis
    by (simp add: finish_call_def eval_nat_numeral get_team_schedule_cached_def)
next
  case None
  show ?thesis
  proof (cases "map_of (lru s) (schedule_url team)")
    case (Some b)
    with None show ?thesis
      by (simp add: finish_call_def eval_nat_numeral get_team_schedule_cached_def
          fetch_api_data_def split: sum.splits)
  next
    case miss: None
    with None show ?thesis
      by (simp add: finish_call_def eval_nat_numeral get_team_schedule_cached_def
          fetch_api_data_def Let_def split: sum.splits)
  qed
qed

lemma finish_call_returns: "\<exists>r. fst (finish_call E c s) = Returned r"
  by (cases c)
     (simp_all add: finish_call_def eval_nat_numeral run_call_Returned Let_def
        split: option.splits sum.splits)

lemma run_tasks_empty: "run_tasks E schedule [] s = ([], s)"
  by (induction schedule) simp_all

lemma execute_empty: "execute E schedule [] s = ([], s)"
  by (simp add: execute_def run_tasks_empty)

lemma step_task_settled:
  assumes "settled f s pool"
  shows "\<exists>pool'. step_task E l pool s = (pool', s) \<and> map fst pool' = map fst pool \<and>
           settled f s pool'"
  using assms
proof (induction pool)
  case Nil
  show ?case by (simp add: settled_def)
next
  case (Cons t pool)
  obtain l' c where t: "t = (l', c)" by (cases t)
  from Cons.prems have hd: "cache s (snd l') = Some (f (snd l'))"
    and c: "c = AtCheck (snd l') \<or> c = Returned (Inr (f (snd l')))"
    and tl: "settled f s pool"
    by (simp_all add: settled_def t)
  from Cons.IH [OF tl] obtain pool' where
    p: "step_task E l pool s = (pool', s)" "map fst pool' = map fst pool" "settled f s pool'"
    by blast
  from c show ?case
  proof
    assume "c = AtCheck (snd l')"
    with hd tl p show ?thesis
      by (simp add: t settled_def)
  next
    assume "c = Returned (Inr (f (snd l')))"
    with hd tl p show ?thesis
      by (simp add: t settled_def)
  qed
qed

lemma run_tasks_settled:
  assumes "settled f s pool"
  shows "\<exists>pool'. run_tasks E schedule pool s = (pool', s) \<and> map fst pool' = map fst pool \<and>
           settled f s pool'"
  using assms
proof (induction schedule arbitrary: pool)
  case Nil
  then show ?case by simp
next
  case (Cons l schedule)
  from step_task_settled [OF Cons.prems, of E l] obtain pool1 where
    p: "step_task E l pool s = (pool1, s)" "map fst pool1 = map fst pool" "settled f s pool1"
    by blast
  from Cons.IH [OF p(3)] obtain pool' where
    q: "run_tasks E schedule pool1 s = (pool', s)" "map fst pool' = map fst pool1"
       "settled f s pool'"
    by blast
  with p show ?case by simp
qed

lemma finish_tasks_settled:
  assumes "settled f s pool"
  shows "finish_tasks E pool s = (map (\<lambda>l. (l, Returned (Inr (f (snd l))))) (map fst pool), s)"
  using assms
proof (induction pool)
  case Nil
  show ?case by simp
next
  case (Cons t pool)
  obtain l c where t: "t = (l, c)" by (cases t)
  from Cons.prems have hd: "cache s (snd l) = Some (f (snd l))"
    and c: "c = AtCheck (snd l) \<or> c = Returned (Inr (f (snd l)))"
    and tl: "settled f s pool"
    by (simp_all add: settled_def t)
  have "finish_call E c s = (Returned (Inr (f (snd l))), s)"
  proof (rule disjE [OF c])
    assume "c = AtCheck (snd l)"
    with hd show ?thesis
      by (simp add: finish_call_sequential get_team_schedule_cached_def)
  next
    assume "c = Returned (Inr (f (snd l)))"
    then show ?thesis
      by (simp add: finish_call_def run_call_Returned)
  qed
  then show ?case
    using Cons.IH [OF tl] by (simp add: t)
qed

lemma execute_settled:
  assumes "settled f s pool"
  shows "execute E schedule pool s =
     (map (\<lambda>l. (l, Returned (Inr (f (snd l))))) (map fst pool), s)"
proof -
  from run_tasks_settled [OF assms, of E schedule] obtain pool' where
    q: "run_tasks E schedule pool s = (pool', s)" "map fst pool' = map fst pool"
       "settled f s pool'"
    by blast
  then show ?thesis
    by (simp add: execute_def finish_tasks_settled)
qed

lemma settled_rank_tasks: "settled f (snapshot s f) (rank_tasks tz)"
  by (simp add: settled_def rank_tasks_def snapshot_def list_all_iff)

lemma settled_append: "settled f s (xs @ ys) = (settled f s xs \<and> settled f s ys)"
  by (simp add: settled_def)

lemma settled_all_timezones: "settled f (snapshot s f) (concat (map rank_tasks tzs))"
  by (induction tzs) (simp_all add: settled_append settled_rank_tasks, simp add: settled_def)

lemma map_of_returned:
  "map_of (map (\<lambda>l. (l, Returned (Inr (f (snd l))))) ls) l =
     (if l \<in> set ls then Some (Returned (Inr (f (snd l)))) else None)"
  by (induction ls) auto

lemma collect_results_step:
  "collect_results tz pool (team # completed) acc =
     (case outcome tz pool team of
        Some (Inr result) \<Rightarrow> collect_results tz pool completed (acc @ [result])
      | _ \<Rightarrow> collect_results tz pool completed acc)"
  by (simp add: outcome_def split: option.splits)

lemma spec_evaluate_viewing_time:
  "viewing_time team schedule offset =
     (case spec_evaluate team schedule offset of None \<Rightarrow> Inl OverflowError | Some r \<Rightarrow> Inr r)"
  by (simp add: viewing_time_spec spec_evaluate_def list_all_iff)

lemma collect_results_settled:
  assumes "\<forall>team\<in>set completed. map_of pool (tz, team) = Some (Returned (Inr (f team)))"
  shows "collect_results tz pool completed acc = acc @ spec_rows f tz completed"
  using assms
proof (induction completed arbitrary: acc)
  case Nil
  show ?case by (simp add: spec_rows_def)
next
  case (Cons team completed)
  then have o: "outcome tz pool team = Some (viewing_time team (f team) tz)"
    by (simp add: outcome_def)
  from Cons have IH: "\<And>acc. collect_results tz pool completed acc =
      acc @ spec_rows f tz completed"
    by simp
  show ?case
    by (cases "spec_evaluate team (f team) tz")
       (simp_all add: collect_results_step o spec_evaluate_viewing_time IH spec_rows_def
          del: collect_results.simps(2))
qed

lemma viewable_count_key: "(\<lambda>x. fst (snd x)) = viewable_count"
  by (simp add: viewable_count_def fun_eq_iff)

lemma rank_no_workers:
  assumes "max_workers s \<le> 0"
  shows "rank_teams_by_viewing_availability_parallel E s tz schedule completed =
     (Inl ValueError, s)"
  using assms
  by (simp add: rank_teams_by_viewing_availability_parallel_def submitted_def execute_empty
      rank_outcome_def)

lemma execute_snapshot:
  "execute E schedule (rank_tasks tz) (snapshot s f) =
     (map (\<lambda>l. (l, Returned (Inr (f (snd l))))) (map fst (rank_tasks tz)), snapshot s f)"
  by (rule execute_settled) (rule settled_rank_tasks)

lemma collect_results_snapshot:
  assumes "0 < max_workers s" and "set completed \<subseteq> set team_list"
  shows "collect_results tz
           (fst (execute E schedule (submitted (snapshot s f) tz) (snapshot s f)))
           completed [] =
         spec_rows f tz completed"
proof -
  let ?pool = "map (\<lambda>l. (l, Returned (Inr (f (snd l))))) (map fst (rank_tasks tz))"
  have w: "0 < max_workers (snapshot s f)"
    using assms(1) by (simp add: snapshot_def)
  have "\<forall>team\<in>set completed. map_of ?pool (tz, team) = Some (Returned (Inr (f team)))"
  proof
    fix team
    assume "team \<in> set completed"
    with assms(2) have "(tz, team) \<in> set (map fst (rank_tasks tz))"
      by (auto simp add: rank_tasks_def image_iff)
    then show "map_of ?pool (tz, team) = Some (Returned (Inr (f team)))"
      by (simp only: map_of_returned if_True snd_conv)
  qed
  then have "collect_results tz ?pool completed [] = [] @ spec_rows f tz completed"
    by (rule collect_results_settled)
  then show ?thesis
    using w by (simp add: submitted_def execute_snapshot)
qed

lemma rank_snapshot:
  assumes "0 < max_workers s" and "set completed \<subseteq> set team_list"
  shows "rank_teams_by_viewing_availability_parallel E (snapshot s f) tz schedule completed =
     (Inr (py_sorted_reverse viewable_count (spec_rows f tz completed)), snapshot s f)"
proof -
  have w: "0 < max_workers (snapshot s f)"
    using assms(1) by (simp add: snapshot_def)
  have e: "snd (execute E schedule (submitted (snapshot s f) tz) (snapshot s f)) = snapshot s f"
    using w by (simp add: submitted_def execute_snapshot)
  obtain pool s1 where
    x: "execute E schedule (submitted (snapshot s f) tz) (snapshot s f) = (pool, s1)"
    by (cases "execute E schedule (submitted (snapshot s f) tz) (snapshot s f)")
  show ?thesis
    using w e collect_results_snapshot [OF assms, of tz E schedule f]
    by (simp add: rank_teams_by_viewing_availability_parallel_def rank_outcome_def
        viewable_count_key x)
qed

lemma future_result_sequential:
  "future_result tz team (fst (finish_call E (AtCheck team) s)) =
     Some (fst (analyze_team_viewing_time E s team tz))"
  by (cases "get_team_schedule_cached E s team")
     (simp add: finish_call_sequential analyze_team_viewing_time_def split: sum.splits)

section \<open>The team ranking\<close>

lemma py_sorted_reverse_descending:
  "sorted_wrt (\<lambda>a b. key b \<le> key a) (py_sorted_reverse key xs)"
proof -
  have "sorted (map key (sort_key key (rev xs)))"
    by (rule sorted_sort_key)
  then have "sorted_wrt (\<lambda>a b. key a \<le> key b) (sort_key key (rev xs))"
    by (simp add: sorted_map)
  then show ?thesis
    by (simp add: py_sorted_reverse_def sorted_wrt_rev)
qed

lemma py_sorted_reverse_stable:
  "filter (\<lambda>y. key y = k) (py_sorted_reverse key xs) = filter (\<lambda>y. key y = k) xs"
  by (simp add: py_sorted_reverse_def sort_key_stable flip: rev_filter)

lemma mset_py_sorted_reverse: "mset (py_sorted_reverse key xs) = mset xs"
  by (simp add: py_sorted_reverse_def)

lemma map_key_py_sorted_reverse:
  "map key (py_sorted_reverse key xs) = rev (sort (map key xs))"
proof -
  have "mset (map key (sort_key key (rev xs))) = mset (map key xs)"
    by simp
  moreover have "sorted (map key (sort_key key (rev xs)))"
    by (rule sorted_sort_key)
  ultimately have "sort (map key xs) = map key (sort_key key (rev xs))"
    by (metis properties_for_sort)
  then show ?thesis
    by (simp add: py_sorted_reverse_def rev_map)
qed

lemma py_sorted_reverse_inj:
  assumes "mset xs = mset ys" and "distinct (map key xs)"
  shows "py_sorted_reverse key xs = py_sorted_reverse key ys"
proof -
  from assms(2) have inj: "inj_on key (set (rev xs))"
    by (simp add: distinct_map)
  have "mset (rev xs) = mset (sort_key key (rev ys))"
    using assms(1) by simp
  moreover have "sorted (map key (sort_key key (rev ys)))"
    by (rule sorted_sort_key)
  ultimately have "sort_key key (rev xs) = sort_key key (rev ys)"
    using inj by (intro sort_key_inj_key_eq)
  then show ?thesis
    by (simp add: py_sorted_reverse_def)
qed

lemma get_cached:
  "cache s team = Some schedule \<Longrightarrow> get_team_schedule_cached E s team = (Inr schedule, s)"
  by (simp add: get_team_schedule_cached_def)

lemma mset_spec_rows:
  "mset c1 = mset c2 \<Longrightarrow> mset (spec_rows f offset c1) = mset (spec_rows f offset c2)"
proof -
  assume eq: "mset c1 = mset c2"
  let ?h = "\<lambda>team. spec_evaluate team (f team) offset"
  have "mset (map (the \<circ> ?h) (filter (\<lambda>x. ?h x \<noteq> None) c1)) =
      image_mset (the \<circ> ?h) (filter_mset (\<lambda>x. ?h x \<noteq> None) (mset c1))"
    by (simp only: mset_map mset_filter)
  also have "\<dots> = mset (map (the \<circ> ?h) (filter (\<lambda>x. ?h x \<noteq> None) c2))"
    by (simp only: mset_map mset_filter eq)
  finally show ?thesis
    by (simp only: spec_rows_def List.map_filter_def)
qed

lemma py_sorted_reverse_ties:
  assumes "\<forall>x\<in>set xs. key x = k"
  shows "py_sorted_reverse key xs = xs"
proof -
  have "filter (\<lambda>y. key y = k) (py_sorted_reverse key xs) = py_sorted_reverse key xs"
    using assms by (simp add: py_sorted_reverse_def)
  moreover have "filter (\<lambda>y. key y = k) xs = xs"
    using assms by simp
  ultimately show ?thesis
    using py_sorted_reverse_stable [of key k xs] by simp
qed

lemma team_list_names:
  "team_list =
     [''NJD'', ''NYI'', ''NYR'', ''PHI'', ''PIT'', ''BOS'', ''BUF'', ''MTL'', ''OTT'', ''TOR'',
      ''FLA'', ''TBL'', ''CAR'', ''WSH'', ''CHI'', ''DET'', ''NSH'', ''STL'', ''CGY'', ''COL'',
      ''EDM'', ''VAN'', ''ANA'', ''DAL'', ''LAK'', ''SJS'', ''CBJ'', ''MIN'', ''WPG'', ''VGK'',
      ''SEA'', ''UTA'']"
  by (simp add: team_list_def NHL_TEAMS_def)

lemma distinct_team_list: "distinct team_list"
  by (simp add: team_list_names)

lemma scenario_workers:
  "0 < max_workers scenario_start" "0 < max_workers one_worker" "max_workers no_workers \<le> 0"
  by (simp_all add: scenario_start_def one_worker_def no_workers_def init_def)

lemma spec_evaluate_empty: "spec_evaluate team [] 0 = Some (team, 0, [])"
  by (simp add: spec_evaluate_def)

lemma spec_rows_empty: "spec_rows (\<lambda>team. []) 0 teams = map (\<lambda>team. (team, 0, [])) teams"
  by (induction teams) (simp_all add: spec_rows_def spec_evaluate_empty)

lemma rank_all_tied:
  assumes "set completed \<subseteq> set team_list"
  shows "fst (rank_teams_by_viewing_availability_parallel E off_season 0 schedule completed) =
     Inr (map (\<lambda>team. (team, 0, [])) completed)"
proof -
  have "py_sorted_reverse viewable_count (map (\<lambda>team. (team, 0, [])) completed) =
      map (\<lambda>team. (team, 0, [])) completed"
    by (rule py_sorted_reverse_ties [where k = 0]) (simp add: viewable_count_def)
  then show ?thesis
    unfolding off_season_def
    by (simp add: rank_snapshot [OF scenario_workers(1) assms] spec_rows_empty)
qed

lemma scenario_game_minus_5:
  "spec_counted (-5) scenario_game" "spec_representable (-5) scenario_game"
  by (simp_all add: scenario_game_def scenario_minus_5 scenario_representable)

lemma snd_scenario_game: "snd scenario_game = ''2025-01-06''"
  by (simp add: scenario_game_def)

lemma spec_evaluate_replicate:
  "spec_evaluate team (replicate n scenario_game) (-5) =
     Some (team, n, replicate n ''2025-01-06'')"
  by (simp add: spec_evaluate_def list_all_iff scenario_game_minus_5 snd_scenario_game)

lemma spec_rows_ladder:
  "spec_rows ladder (-5) teams =
     map (\<lambda>team. (team, position team, replicate (position team) ''2025-01-06'')) teams"
  by (induction teams) (simp_all add: spec_rows_def ladder_def spec_evaluate_replicate)

lemma positions: "map position team_list = [0..<32]"
  by (simp add: position_def team_list_names upt_rec)

lemma ladder_counts_distinct:
  "distinct (map viewable_count (spec_rows ladder (-5) team_list))"
proof -
  have "map viewable_count (spec_rows ladder (-5) team_list) = map position team_list"
    by (simp add: spec_rows_ladder viewable_count_def comp_def)
  then show ?thesis
    by (simp only: positions distinct_upt)
qed

lemma spec_rows_toronto_only:
  "spec_rows toronto_only (-5) teams =
     map (\<lambda>team. if team = ''TOR'' then (''TOR'', 1, [''2025-01-06'']) else (team, 0, [])) teams"
  by (induction teams)
     (simp_all add: spec_rows_def toronto_only_def spec_evaluate_def scenario_game_minus_5
        snd_scenario_game)

lemma first_two_exchanged_perm: "mset first_two_exchanged = mset team_list"
  by (simp add: first_two_exchanged_def team_list_names)

text \<open>
  Claim C1, as stated: for a fixed schedule snapshot and a fixed offset the ranking does not
  depend on the order in which the concurrent evaluations complete. It does: with every
  schedule empty all teams tie, and the ranking starts with NJD and NYI when the futures
  complete in the order of the team list, and with UTA and SEA when they complete in the
  reverse order.
\<close>

theorem ranking_depends_on_completion_order:
  "mset (rev team_list) = mset team_list \<and>
   take 2 (rows_of (fst (rank_teams_by_viewing_availability_parallel scenario_env off_season 0
                           [] team_list))) = [(''NJD'', 0, []), (''NYI'', 0, [])] \<and>
   take 2 (rows_of (fst (rank_teams_by_viewing_availability_parallel scenario_env off_season 0
                           [] (rev team_list)))) = [(''UTA'', 0, []), (''SEA'', 0, [])] \<and>
   fst (rank_teams_by_viewing_availability_parallel scenario_env off_season 0 [] team_list) \<noteq>
   fst (rank_teams_by_viewing_availability_parallel scenario_env off_season 0 []
          (rev team_list))"
proof -
  have a: "fst (rank_teams_by_viewing_availability_parallel scenario_env off_season 0 []
                  team_list) = Inr (map (\<lambda>team. (team, 0, [])) team_list)"
    by (rule rank_all_tied) simp
  have b: "fst (rank_teams_by_viewing_availability_parallel scenario_env off_season 0 []
                  (rev team_list)) = Inr (map (\<lambda>team. (team, 0, [])) (rev team_list))"
    by (rule rank_all_tied) simp
  show ?thesis
    unfolding a b by (simp add: team_list_names rows_of_def)
qed

text \<open>
  Claim C1, amended. For a fixed schedule snapshot and a fixed offset, two runs with a
  positive \<open>max_workers\<close> (the same or not), whatever the interleaving of their threads
  and the order in which their futures complete, return rankings with the same rows and the
  same sequence of counts, equal when no two teams have the same count, and leave the
  snapshot as it was. In each ranking the teams of equal count are in the order in which
  their futures completed in that run.
\<close>

theorem ranking_up_to_ties:
  assumes "0 < max_workers s1" and "0 < max_workers s2"
    and "mset c1 = mset team_list" and "mset c2 = mset team_list"
  shows
   "\<exists>rows1 rows2.
      rank_teams_by_viewing_availability_parallel E1 (snapshot s1 schedule_of) offset
        schedule1 c1 = (Inr rows1, snapshot s1 schedule_of) \<and>
      rank_teams_by_viewing_availability_parallel E2 (snapshot s2 schedule_of) offset
        schedule2 c2 = (Inr rows2, snapshot s2 schedule_of) \<and>
      mset rows1 = mset (spec_rows schedule_of offset team_list) \<and>
      mset rows2 = mset rows1 \<and>
      map viewable_count rows2 = map viewable_count rows1 \<and>
      (distinct (map viewable_count (spec_rows schedule_of offset team_list)) \<longrightarrow>
         rows2 = rows1) \<and>
      (\<forall>k. filter (\<lambda>r. viewable_count r = k) rows1 =
            filter (\<lambda>r. viewable_count r = k) (spec_rows schedule_of offset c1)) \<and>
      (\<forall>k. filter (\<lambda>r. viewable_count r = k) rows2 =
            filter (\<lambda>r. viewable_count r = k) (spec_rows schedule_of offset c2))"
proof -
  let ?rows = "spec_rows schedule_of offset"
  let ?sorted = "\<lambda>c. py_sorted_reverse viewable_count (?rows c)"
  have sub1: "set c1 \<subseteq> set team_list"
    using assms(3) mset_eq_setD by blast
  have sub2: "set c2 \<subseteq> set team_list"
    using assms(4) mset_eq_setD by blast
  have r1: "rank_teams_by_viewing_availability_parallel E1 (snapshot s1 schedule_of) offset
      schedule1 c1 = (Inr (?sorted c1), snapshot s1 schedule_of)"
    using assms(1) sub1 by (rule rank_snapshot)
  have r2: "rank_teams_by_viewing_availability_parallel E2 (snapshot s2 schedule_of) offset
      schedule2 c2 = (Inr (?sorted c2), snapshot s2 schedule_of)"
    using assms(2) sub2 by (rule rank_snapshot)
  have c21: "mset c2 = mset c1"
    using assms(3,4) by simp
  have m: "mset (?rows c2) = mset (?rows c1)"
    using c21 by (rule mset_spec_rows)
  have m1: "mset (?rows c1) = mset (?rows team_list)"
    using assms(3) by (rule mset_spec_rows)
  have p0: "mset (?sorted c1) = mset (?rows team_list)"
    using m1 by (simp only: mset_py_sorted_reverse)
  have p1: "mset (?sorted c2) = mset (?sorted c1)"
    using m by (simp only: mset_py_sorted_reverse)
  have "mset (map viewable_count (?rows c2)) = mset (map viewable_count (?rows c1))"
    using m by (simp only: mset_map)
  then have "sorted_list_of_multiset (mset (map viewable_count (?rows c2))) =
      sorted_list_of_multiset (mset (map viewable_count (?rows c1)))"
    by (rule arg_cong)
  then have "sort (map viewable_count (?rows c2)) = sort (map viewable_count (?rows c1))"
    by (simp only: sorted_list_of_multiset_mset)
  then have p2: "map viewable_count (?sorted c2) = map viewable_count (?sorted c1)"
    by (simp only: map_key_py_sorted_reverse)
  have p3: "?sorted c2 = ?sorted c1"
    if d: "distinct (map viewable_count (?rows team_list))"
  proof -
    have "mset (map viewable_count (?rows c2)) = mset (map viewable_count (?rows team_list))"
      using m m1 by (simp only: mset_map)
    then have "distinct (map viewable_count (?rows c2)) =
        distinct (map viewable_count (?rows team_list))"
      by (rule mset_eq_imp_distinct_iff)
    with d have "distinct (map viewable_count (?rows c2))"
      by simp
    with m show ?thesis by (rule py_sorted_reverse_inj)
  qed
  have p4: "\<forall>k. filter (\<lambda>r. viewable_count r = k) (?sorted c1) =
            filter (\<lambda>r. viewable_count r = k) (?rows c1)"
    by (simp only: py_sorted_reverse_stable simp_thms)
  have p5: "\<forall>k. filter (\<lambda>r. viewable_count r = k) (?sorted c2) =
            filter (\<lambda>r. viewable_count r = k) (?rows c2)"
    by (simp only: py_sorted_reverse_stable simp_thms)
  show ?thesis
    using r1 r2 p0 p1 p2 p3 p4 p5 by blast
qed

theorem ranking_up_to_ties_witness:
  "0 < max_workers scenario_start \<and> 0 < max_workers one_worker \<and>
   mset (rev team_list) = mset team_list \<and>
   distinct (map viewable_count (spec_rows ladder (-5) team_list)) \<and>
   fst (rank_teams_by_viewing_availability_parallel offline_env (snapshot one_worker ladder) (-5)
          in_turns (rev team_list)) =
   fst (rank_teams_by_viewing_availability_parallel scenario_env (snapshot scenario_start ladder)
          (-5) [] team_list)"
proof -
  have p: "mset (rev team_list) = mset team_list"
    by simp
  have q: "mset team_list = mset team_list"
    by simp
  from ranking_up_to_ties [OF scenario_workers(1,2) q p, of scenario_env ladder "-5" "[]"
      offline_env in_turns]
  obtain rows1 rows2 where
    "rank_teams_by_viewing_availability_parallel scenario_env (snapshot scenario_start ladder)
       (-5) [] team_list = (Inr rows1, snapshot scenario_start ladder)"
    "rank_teams_by_viewing_availability_parallel offline_env (snapshot one_worker ladder)
       (-5) in_turns (rev team_list) = (Inr rows2, snapshot one_worker ladder)"
    "distinct (map viewable_count (spec_rows ladder (-5) team_list)) \<longrightarrow> rows2 = rows1"
    by blast
  with ladder_counts_distinct p scenario_workers(1,2) show ?thesis
    by simp
qed

text \<open>
  Claim C2, as stated: the teams of equal count keep the same relative order across
  repeated runs. With the same snapshot, in which only Toronto has a game, the ranking has
  Toronto first in both runs, followed by NJD and NYI when their futures complete in the
  order of the team list, and by NYI and NJD when the first two futures complete in the
  other order.
\<close>

theorem ties_differ_between_runs:
  "mset first_two_exchanged = mset team_list \<and>
   take 3 (map fst (rows_of (fst (rank_teams_by_viewing_availability_parallel scenario_env
       (snapshot scenario_start toronto_only) (-5) [] team_list)))) =
     [''TOR'', ''NJD'', ''NYI''] \<and>
   take 3 (map fst (rows_of (fst (rank_teams_by_viewing_availability_parallel scenario_env
       (snapshot scenario_start toronto_only) (-5) [] first_two_exchanged)))) =
     [''TOR'', ''NYI'', ''NJD'']"
proof -
  have sub: "set first_two_exchanged \<subseteq> set team_list"
    using first_two_exchanged_perm mset_eq_setD by blast
  have a: "take 3 (map fst (py_sorted_reverse viewable_count
      (spec_rows toronto_only (-5) team_list))) = [''TOR'', ''NJD'', ''NYI'']"
    by (simp add: spec_rows_toronto_only team_list_names py_sorted_reverse_def
        viewable_count_def)
  have b: "take 3 (map fst (py_sorted_reverse viewable_count
      (spec_rows toronto_only (-5) first_two_exchanged))) = [''TOR'', ''NYI'', ''NJD'']"
    by (simp add: spec_rows_toronto_only first_two_exchanged_def team_list_names
        py_sorted_reverse_def viewable_count_def)
  show ?thesis
    using a b first_two_exchanged_perm
    by (simp add: rank_snapshot [OF scenario_workers(1)] sub rows_of_def)
qed

text \<open>
  Claim C2, amended. Every ranking returned by
  \<open>rank_teams_by_viewing_availability_parallel\<close> (it returns one when \<open>max_workers\<close> is
  positive) is in descending order of \<open>viewable_count\<close>, and the rows of equal count keep
  the relative order they had in the list collected before the sort, which is the order in
  which the futures completed in that run; for a schedule snapshot that list is the rows of
  the teams in that order.
\<close>

theorem ranking_sorted_and_stable:
  assumes "0 < max_workers s"
  shows
   "\<exists>rows.
      fst (rank_teams_by_viewing_availability_parallel E s offset schedule completed) =
        Inr rows \<and>
      sorted_wrt (\<lambda>a b. viewable_count b \<le> viewable_count a) rows \<and>
      filter (\<lambda>r. viewable_count r = k) rows =
        filter (\<lambda>r. viewable_count r = k)
          (collect_results offset (fst (execute E schedule (submitted s offset) s))
             completed []) \<and>
      (set completed \<subseteq> set team_list \<longrightarrow>
         collect_results offset
           (fst (execute E schedule (submitted (snapshot s schedule_of) offset)
                   (snapshot s schedule_of))) completed [] =
         spec_rows schedule_of offset completed)"
proof -
  let ?pre = "collect_results offset (fst (execute E schedule (submitted s offset) s))
      completed []"
  have r: "fst (rank_teams_by_viewing_availability_parallel E s offset schedule completed) =
      Inr (py_sorted_reverse viewable_count ?pre)"
    using assms
    by (simp add: rank_teams_by_viewing_availability_parallel_def rank_outcome_def
        viewable_count_key split: prod.splits)
  have snap: "collect_results offset
           (fst (execute E schedule (submitted (snapshot s schedule_of) offset)
                   (snapshot s schedule_of))) completed [] =
         spec_rows schedule_of offset completed"
    if sub: "set completed \<subseteq> set team_list"
    using assms sub by (rule collect_results_snapshot)
  show ?thesis
    using r snap py_sorted_reverse_descending [of viewable_count ?pre]
      py_sorted_reverse_stable [of viewable_count k ?pre]
    by blast
qed

lemma snapshot_idem: "snapshot (snapshot s f) f = snapshot s f"
  by (simp add: snapshot_def)

theorem ranking_sorted_and_stable_witness:
  "0 < max_workers (snapshot scenario_start toronto_only) \<and>
   filter (\<lambda>r. viewable_count r = 0)
     (rows_of (fst (rank_teams_by_viewing_availability_parallel scenario_env
                      (snapshot scenario_start toronto_only) (-5) []
                      [''NYI'', ''TOR'', ''NJD'']))) =
   [(''NYI'', 0, []), (''NJD'', 0, [])]"
proof -
  have w: "0 < max_workers (snapshot scenario_start toronto_only)"
    by (simp add: snapshot_def scenario_workers)
  have sub: "set [''NYI'', ''TOR'', ''NJD''] \<subseteq> set team_list"
    by (simp add: team_list_names)
  from ranking_sorted_and_stable [OF w, of scenario_env "-5" "[]" "[''NYI'', ''TOR'', ''NJD'']"
      0 toronto_only]
  obtain rows where
    "fst (rank_teams_by_viewing_availability_parallel scenario_env
            (snapshot scenario_start toronto_only) (-5) [] [''NYI'', ''TOR'', ''NJD'']) =
       Inr rows"
    "filter (\<lambda>r. viewable_count r = 0) rows =
       filter (\<lambda>r. viewable_count r = 0)
         (spec_rows toronto_only (-5) [''NYI'', ''TOR'', ''NJD''])"
    using sub by (auto simp add: snapshot_idem)
  with w show ?thesis
    by (simp add: rows_of_def spec_rows_toronto_only viewable_count_def)
qed

section \<open>The schedule parser and the cache\<close>

lemma parse_game_object:
  assumes "fromisoformat E [] = None"
  shows "parse_game E today (JObj items) =
     Inr (if spec_retained E today (JObj items) then [spec_record E (JObj items)] else [])"
proof (cases "map_of items ''startTimeUTC''")
  case None
  with assms show ?thesis
    by (simp add: parse_game_def parse_defs replace_Z_def)
next
  case (Some start_time)
  then show ?thesis
    using assms
    by (cases start_time) (auto simp add: parse_game_def parse_defs replace_Z_def
        split: option.splits)
qed

lemma parse_game_not_object:
  "\<not> is_object g \<Longrightarrow> parse_game E today g = Inl AttributeError"
  by (cases g) (simp_all add: parse_game_def)

lemma parse_games_objects:
  assumes "fromisoformat E [] = None" and "\<forall>g\<in>set games. is_object g"
  shows "parse_games E today games parsed = Inr (parsed @ spec_parse E today games)"
  using assms(2)
proof (induction games arbitrary: parsed)
  case Nil
  show ?case by (simp add: spec_parse_def)
next
  case (Cons g games)
  then obtain items where g: "g = JObj items"
    by (cases g) simp_all
  from Cons have IH: "\<And>parsed. parse_games E today games parsed =
      Inr (parsed @ spec_parse E today games)"
    by simp
  show ?case
    by (simp add: g parse_game_object [OF assms(1)] IH spec_parse_def)
qed

lemma parse_schedule_objects:
  assumes "fromisoformat E [] = None" and "field doc ''games'' = Some (JArr games)"
    and "\<forall>g\<in>set games. is_object g"
  shows "parse_schedule E today (JSON doc) = Inr (spec_parse E today games)"
proof -
  from assms(2) obtain items where doc: "doc = JObj items"
    by (cases doc) simp_all
  with assms(2) have "py_get doc ''games'' (JArr []) = Inr (JArr games)"
    by simp
  then show ?thesis
    by (simp add: parse_schedule_def parse_games_objects [OF assms(1,3)])
qed

lemma fetch_current_date:
  "current_date (snd (fetch_api_data E s url)) = current_date s"
  by (simp add: fetch_api_data_def Let_def split: option.splits)

lemma fetch_cache:
  "cache (snd (fetch_api_data E s url)) = cache s"
  by (simp add: fetch_api_data_def Let_def split: option.splits)

lemma get_miss:
  assumes "cache s team = None"
  shows "get_team_schedule_cached E s team =
     (case parse_schedule E (current_date s) (fst (fetch_api_data E s (schedule_url team))) of
        Inl e \<Rightarrow> (Inl e, snd (fetch_api_data E s (schedule_url team)))
      | Inr parsed_games \<Rightarrow>
          (Inr parsed_games,
           (snd (fetch_api_data E s (schedule_url team)))
             \<lparr>cache := (cache s)(team \<mapsto> parsed_games)\<rparr>))"
proof -
  obtain json_data s1 where f: "fetch_api_data E s (schedule_url team) = (json_data, s1)"
    by (cases "fetch_api_data E s (schedule_url team)")
  have d: "current_date s1 = current_date s"
    using fetch_current_date [of E s "schedule_url team"] by (simp add: f)
  have c: "cache s1 = cache s"
    using fetch_cache [of E s "schedule_url team"] by (simp add: f)
  show ?thesis
    using assms by (simp add: get_team_schedule_cached_def f d c split: sum.splits)
qed

lemma get_current_date:
  "current_date (snd (get_team_schedule_cached E s team)) = current_date s"
proof (cases "cache s team")
  case None
  then show ?thesis
    by (simp add: get_miss fetch_current_date split: sum.splits)
next
  case (Some schedule)
  then show ?thesis by (simp add: get_cached)
qed

lemma schedule_url_inj: "schedule_url a = schedule_url b \<Longrightarrow> a = b"
  by (simp add: schedule_url_def)

lemma fetch_requests:
  "requests (snd (fetch_api_data E s url)) =
     (if map_of (lru s) url = None then requests s @ [url] else requests s)"
  by (simp add: fetch_api_data_def Let_def split: option.splits)



lemma get_stores:
  assumes "fst (get_team_schedule_cached E s team) = Inr v"
  shows "cache (snd (get_team_schedule_cached E s team)) team = Some v"
proof (cases "cache s team")
  case None
  with assms show ?thesis
    by (simp add: get_miss split: sum.splits)
next
  case (Some schedule)
  with assms show ?thesis by (simp add: get_cached)
qed

lemma get_requests:
  "requests (snd (get_team_schedule_cached E s team)) =
     (if cache s team = None \<and> map_of (lru s) (schedule_url team) = None
      then requests s @ [schedule_url team] else requests s)"
proof (cases "cache s team")
  case None
  then show ?thesis
    by (simp add: get_miss fetch_requests split: sum.splits)
next
  case (Some schedule)
  then show ?thesis by (simp add: get_cached)
qed

lemma get_cache_other:
  assumes "other \<noteq> team"
  shows "cache (snd (get_team_schedule_cached E s team)) other = cache s other"
proof (cases "cache s team")
  case None
  with assms show ?thesis
    by (simp add: get_miss fetch_cache split: sum.splits)
next
  case (Some schedule)
  then show ?thesis by (simp add: get_cached)
qed

lemma get_keeps_entry:
  assumes "cache s team = Some v"
  shows "cache (snd (get_team_schedule_cached E s t)) team = Some v"
proof (cases "t = team")
  case True
  with assms show ?thesis by (simp add: get_cached)
next
  case False
  then have "team \<noteq> t" by simp
  then show ?thesis
    using assms by (simp add: get_cache_other)
qed

lemma get_keeps_requests:
  assumes "cache s team = Some v"
  shows "count_list (requests (snd (get_team_schedule_cached E s t))) (schedule_url team) =
     count_list (requests s) (schedule_url team)"
proof (cases "t = team")
  case True
  with assms show ?thesis by (simp add: get_cached)
next
  case False
  then have "schedule_url t \<noteq> schedule_url team"
    using schedule_url_inj by blast
  then show ?thesis
    by (simp add: get_requests)
qed

lemma calls_keep:
  assumes "cache s team = Some v"
  shows "cache (calls E s teams) team = Some v \<and>
     count_list (requests (calls E s teams)) (schedule_url team) =
     count_list (requests s) (schedule_url team)"
  using assms
proof (induction teams arbitrary: s)
  case Nil
  then show ?case by (simp add: calls_def)
next
  case (Cons t teams)
  let ?s1 = "snd (get_team_schedule_cached E s t)"
  from Cons.prems have "cache ?s1 team = Some v"
    by (rule get_keeps_entry)
  then have "cache (calls E ?s1 teams) team = Some v \<and>
     count_list (requests (calls E ?s1 teams)) (schedule_url team) =
     count_list (requests ?s1) (schedule_url team)"
    by (rule Cons.IH)
  moreover have "calls E s (t # teams) = calls E ?s1 teams"
    by (simp add: calls_def)
  ultimately show ?case
    using get_keeps_requests [OF Cons.prems, of E t] by simp
qed

lemma parse_game_date_str:
  assumes "parse_game E today g = Inr [(dt, date_str)]"
  shows "case raw_start_time g of None \<Rightarrow> False | Some st \<Rightarrow> date_str = split_T_0 st"
proof (cases g)
  case (JObj items)
  show ?thesis
  proof (cases "map_of items ''startTimeUTC''")
    case None
    with assms JObj show ?thesis
      by (simp add: parse_game_def split: if_splits option.splits)
  next
    case (Some start_time)
    with assms JObj show ?thesis
      by (cases start_time)
         (simp_all add: parse_game_def raw_start_time_def split: if_splits option.splits)
  qed
qed (use assms in \<open>simp_all add: parse_game_def\<close>)

lemma late_game_schedule:
  "fst (get_team_schedule_cached late_game_env scenario_start ''TOR'') =
     Inr [(mk_datetime 2025 1 7 2 0 0, ''2025-01-07'')]"
  by (simp add: fetch_defs scenario_defs calendar_defs Let_def)

lemma late_game_minus_5:
  "spec_counted (-5) (mk_datetime 2025 1 7 2 0 0, d)"
  "spec_representable (-5) (mk_datetime 2025 1 7 2 0 0, d)"
  by (simp_all add: spec_defs calendar_defs window_defs Let_def)

text \<open>
  Claim C5, as stated: for every raw payload an entry that cannot be parsed is skipped
  without failing the whole team. The \<open>try\<close> of lines 96 to 101 is around the parsing of
  the start time only: when the games list holds the game of the scenario and a \<open>null\<close>,
  \<open>game.get\<close> raises \<open>AttributeError\<close> at line 93, the call for the team raises, and
  nothing is stored, where the game alone is retained.
\<close>

theorem null_entry_fails_the_team:
  "parse_schedule scenario_env (ymd2ord 2025 1 1) scenario_payload =
     Inr [(mk_datetime 2025 1 6 23 0 0, ''2025-01-06'')] \<and>
   parse_schedule scenario_env (ymd2ord 2025 1 1) null_entry_payload = Inl AttributeError \<and>
   fst (get_team_schedule_cached null_entry_env scenario_start ''TOR'') = Inl AttributeError \<and>
   cache (snd (get_team_schedule_cached null_entry_env scenario_start ''TOR'')) ''TOR'' = None"
  by (simp add: fetch_defs scenario_defs null_entry_env_def null_entry_payload_def
      calendar_defs Let_def)

text \<open>
  Claim C5, amended. For every payload that is an object whose \<open>games\<close> is a list of
  objects, the parser retains exactly the entries whose \<open>gameType\<close> equals 2, whose
  \<open>startTimeUTC\<close> parses, and whose date is strictly after the date taken when the analyzer
  was constructed (no call changes that date); the other entries, those whose start time
  does not parse among them, are skipped without an error, and the retained records are in
  the order of the payload. (\<open>datetime.fromisoformat\<close> does not parse the empty string.)
\<close>

theorem parser_retains_future_regular_season:
  assumes "fromisoformat E [] = None"
    and "field doc ''games'' = Some (JArr games)"
    and "\<forall>g\<in>set games. is_object g"
  shows "parse_schedule E today (JSON doc) =
           Inr (map (spec_record E) (filter (spec_retained E today) games)) \<and>
         (cache s team = None \<and> fst (fetch_api_data E s (schedule_url team)) = JSON doc \<longrightarrow>
            fst (get_team_schedule_cached E s team) =
              Inr (map (spec_record E) (filter (spec_retained E (current_date s)) games))) \<and>
         current_date (snd (get_team_schedule_cached E s team)) = current_date s \<and>
         current_date (init workers start_date) = start_date"
  using parse_schedule_objects [OF assms]
  by (simp add: get_miss get_current_date spec_parse_def init_def)

theorem parser_witness:
  "parse_schedule scenario_env (ymd2ord 2025 1 1) (JSON (JObj [(''games'', JArr mixed_games)])) =
     Inr [(mk_datetime 2025 1 6 23 0 0, ''2025-01-06''),
          (mk_datetime 2025 1 7 2 0 0, ''2025-01-07'')]"
proof -
  have a: "fromisoformat scenario_env [] = None"
    by (simp add: scenario_defs)
  have b: "field (JObj [(''games'', JArr mixed_games)]) ''games'' = Some (JArr mixed_games)"
    by simp
  have c: "\<forall>g\<in>set mixed_games. is_object g"
    by (simp add: mixed_games_def)
  note h = parser_retains_future_regular_season [OF a b c, THEN conjunct1]
  show ?thesis
    unfolding h
    by (simp add: mixed_games_def parse_defs scenario_defs replace_Z_def split_T_0_def
        calendar_defs)
qed

lemma sequential_calls_return_first_result:
  assumes "fst (get_team_schedule_cached E s team) = Inr v"
  shows
    "cache (snd (get_team_schedule_cached E s team)) team = Some v \<and>
     get_team_schedule_cached E (calls E (snd (get_team_schedule_cached E s team)) later) team =
       (Inr v, calls E (snd (get_team_schedule_cached E s team)) later) \<and>
     count_list (requests (calls E (snd (get_team_schedule_cached E s team)) later))
       (schedule_url team) =
     count_list (requests (snd (get_team_schedule_cached E s team))) (schedule_url team)"
proof -
  let ?s1 = "snd (get_team_schedule_cached E s team)"
  have st: "cache ?s1 team = Some v"
    using assms by (rule get_stores)
  note k = calls_keep [OF st, of E later]
  from k have "get_team_schedule_cached E (calls E ?s1 later) team = (Inr v, calls E ?s1 later)"
    by (simp add: get_cached)
  then show ?thesis
    using st k by simp
qed




text \<open>
  Claim C10. The date strings of a result are the date strings of the counted games of the
  schedule, and the date string of a parsed game is the part of its \<open>startTimeUTC\<close> before
  the first \<open>T\<close>: the UTC date, whatever the offset. A game at 2025-01-07T02:00:00Z is
  watchable with offset -5 on Monday 2025-01-06 at 21:00 local time, and is reported as
  2025-01-07.
\<close>

theorem reported_dates_are_utc_dates:
  "(fst (analyze_team_viewing_time E s team offset) = Inr (t, n, ds) \<longrightarrow>
      (case fst (get_team_schedule_cached E s team) of
         Inl e \<Rightarrow> False
       | Inr schedule \<Rightarrow> ds = map snd (filter (spec_counted offset) schedule))) \<and>
   (parse_game E today g = Inr [(dt, date_str)] \<longrightarrow>
      (case raw_start_time g of None \<Rightarrow> False | Some st \<Rightarrow> date_str = split_T_0 st)) \<and>
   split_T_0 ''2025-01-07T02:00:00Z'' = ''2025-01-07'' \<and>
   fst (analyze_team_viewing_time late_game_env scenario_start ''TOR'' (-5)) =
     Inr (''TOR'', 1, [''2025-01-07'']) \<and>
   datetime_add (mk_datetime 2025 1 7 2 0 0) (-5 * 3600) = Inr (mk_datetime 2025 1 6 21 0 0) \<and>
   strftime_A (mk_datetime 2025 1 6 21 0 0) = ''Monday'' \<and>
   date (mk_datetime 2025 1 6 21 0 0) = ymd2ord 2025 1 6 \<and>
   ymd2ord 2025 1 6 \<noteq> ymd2ord 2025 1 7"
proof -
  have a: "fst (analyze_team_viewing_time E s team offset) = Inr (t, n, ds) \<Longrightarrow>
      (case fst (get_team_schedule_cached E s team) of
         Inl e \<Rightarrow> False
       | Inr schedule \<Rightarrow> ds = map snd (filter (spec_counted offset) schedule))"
    by (auto simp add: analyze_fst split: sum.splits if_splits)
  have b: "split_T_0 ''2025-01-07T02:00:00Z'' = ''2025-01-07''"
    by (simp add: split_T_0_def)
  have c: "fst (analyze_team_viewing_time late_game_env scenario_start ''TOR'' (-5)) =
     Inr (''TOR'', 1, [''2025-01-07''])"
    by (simp add: analyze_fst late_game_schedule late_game_minus_5)
  have d: "datetime_add (mk_datetime 2025 1 7 2 0 0) (-5 * 3600) =
      Inr (mk_datetime 2025 1 6 21 0 0)"
    by (simp add: datetime_add_def calendar_defs Let_def)
  have e: "strftime_A (mk_datetime 2025 1 6 21 0 0) = ''Monday''"
    by (simp add: window_defs calendar_defs)
  have f: "date (mk_datetime 2025 1 6 21 0 0) = ymd2ord 2025 1 6"
    by (simp add: mk_datetime_def)
  have g: "ymd2ord 2025 1 6 \<noteq> ymd2ord 2025 1 7"
    by (simp add: calendar_defs)
  show ?thesis
    using a b c d e f g parse_game_date_str [of E today g dt date_str] by blast
qed

theorem reported_dates_witness:
  "fst (analyze_team_viewing_time late_game_env scenario_start ''TOR'' (-5)) =
     Inr (''TOR'', 1, [''2025-01-07'']) \<and>
   fst (get_team_schedule_cached late_game_env scenario_start ''TOR'') =
     Inr [(mk_datetime 2025 1 7 2 0 0, ''2025-01-07'')] \<and>
   [''2025-01-07''] =
     map snd (filter (spec_counted (-5)) [(mk_datetime 2025 1 7 2 0 0, ''2025-01-07'')])"
proof -
  have c: "fst (analyze_team_viewing_time late_game_env scenario_start ''TOR'' (-5)) =
     Inr (''TOR'', 1, [''2025-01-07''])"
    by (simp add: analyze_fst late_game_schedule late_game_minus_5)
  note h = reported_dates_are_utc_dates [of late_game_env scenario_start "''TOR''" "-5"
    "''TOR''" 1 "[''2025-01-07'']", THEN conjunct1, rule_format, OF c]
  from h c late_game_schedule show ?thesis
    by (simp add: late_game_schedule)
qed

section \<open>The timezone leaderboard\<close>

lemma timezone_range_list:
  "timezone_range = [-12, -11, -10, -9, -8, -7, -6, -5, -4, -3, -2, -1, 0,
                     1, 2, 3, 4, 5, 6, 7, 8, 9, 10, 11, 12]"
  by (simp add: timezone_range_def upto.simps)

lemma timezone_keys: "map timezone_key timezone_range = spec_labels"
  by (simp add: timezone_range_list timezone_key_def format_plus_d_def str_nat.simps
      spec_labels_def)

lemma distinct_spec_labels: "distinct spec_labels"
  by (simp add: spec_labels_def)

lemma length_spec_labels: "length spec_labels = 25"
  by (simp add: spec_labels_def)

lemma dict_set_fresh: "k \<notin> fst ` set d \<Longrightarrow> dict_set k v d = d @ [(k, v)]"
  by (induction d) auto

lemma length_dict_set: "length (dict_set k v d) \<le> Suc (length d)"
  by (induction d) auto

lemma set_dict_set: "set (dict_set k v d) \<subseteq> insert (k, v) (set d)"
  by (induction d) (auto split: if_splits)

lemma top_teams_fold_length:
  "length (fold (\<lambda>i result. case team_rankings ! i of
                   (team_name, game_count, _) \<Rightarrow> dict_set team_name game_count result)
             [0..<m] []) \<le> m"
proof (induction m)
  case 0
  show ?case by simp
next
  case (Suc m)
  obtain team_name game_count dates where r: "team_rankings ! m = (team_name, game_count, dates)"
    by (cases "team_rankings ! m")
  show ?case
    using Suc length_dict_set [of team_name game_count]
    by (simp add: r) (meson le_SucI le_trans not_less_eq_eq)
qed

lemma length_top_teams: "length (top_teams top_n_teams team_rankings) \<le> nat top_n_teams"
proof -
  have "length (top_teams top_n_teams team_rankings) \<le>
      nat (min top_n_teams (int (length team_rankings)))"
    unfolding top_teams_def by (rule top_teams_fold_length)
  then show ?thesis by simp
qed

lemma top_teams_fold_distinct:
  assumes "m \<le> length team_rankings" and "distinct (map fst (take m team_rankings))"
  shows "fold (\<lambda>i result. case team_rankings ! i of
                   (team_name, game_count, _) \<Rightarrow> dict_set team_name game_count result)
             [0..<m] [] =
         map (\<lambda>r. (fst r, viewable_count r)) (take m team_rankings)"
  using assms
proof (induction m)
  case 0
  show ?case by simp
next
  case (Suc m)
  then have m: "m < length team_rankings" by simp
  then have t: "take (Suc m) team_rankings = take m team_rankings @ [team_rankings ! m]"
    by (rule take_Suc_conv_app_nth)
  obtain team_name game_count dates where r: "team_rankings ! m = (team_name, game_count, dates)"
    by (cases "team_rankings ! m")
  from Suc.prems(2) have d: "distinct (map fst (take m team_rankings))"
    and fresh: "team_name \<notin> fst ` set (take m team_rankings)"
    by (simp_all add: t r)
  from m d have IH: "fold (\<lambda>i result. case team_rankings ! i of
                   (team_name, game_count, _) \<Rightarrow> dict_set team_name game_count result)
             [0..<m] [] = map (\<lambda>r. (fst r, viewable_count r)) (take m team_rankings)"
    by (simp add: Suc.IH)
  have "team_name \<notin> fst ` set (map (\<lambda>r. (fst r, viewable_count r)) (take m team_rankings))"
    using fresh by (simp add: image_image)
  then show ?case
    by (simp add: IH r t dict_set_fresh viewable_count_def)
qed

lemma top_teams_distinct:
  assumes "distinct (map fst team_rankings)"
  shows "top_teams top_n_teams team_rankings = spec_top top_n_teams team_rankings"
proof -
  let ?m = "nat (min top_n_teams (int (length team_rankings)))"
  have le: "?m \<le> length team_rankings" by simp
  have "distinct (map fst (take ?m team_rankings))"
    using assms by (simp add: distinct_take flip: take_map)
  with le have "top_teams top_n_teams team_rankings =
      map (\<lambda>r. (fst r, viewable_count r)) (take ?m team_rankings)"
    unfolding top_teams_def by (rule top_teams_fold_distinct)
  moreover have "take ?m team_rankings = take (nat top_n_teams) team_rankings"
    by (cases "top_n_teams \<le> int (length team_rankings)") (simp_all add: min_def)
  ultimately show ?thesis
    by (simp add: spec_top_def)
qed

lemma completed_keys:
  assumes "mset tz_completed = mset timezone_range"
  shows "distinct (map timezone_key tz_completed)"
    and "mset (map timezone_key tz_completed) = mset spec_labels"
proof -
  show m: "mset (map timezone_key tz_completed) = mset spec_labels"
    using assms by (simp only: mset_map flip: timezone_keys)
  then have "distinct (map timezone_key tz_completed) = distinct spec_labels"
    by (rule mset_eq_imp_distinct_iff)
  then show "distinct (map timezone_key tz_completed)"
    by (simp add: distinct_spec_labels)
qed

lemma future_result_name:
  "future_result tz team c = Some (Inr r) \<Longrightarrow> fst r = team"
  by (cases "(tz, team, c)" rule: future_result.cases)
     (auto simp add: viewing_time_spec split: if_splits)

lemma outcome_name: "outcome tz pool team = Some (Inr r) \<Longrightarrow> fst r = team"
  by (auto simp add: outcome_def future_result_name split: option.splits)

lemma collect_results_names:
  "map fst (collect_results tz pool completed acc) =
     map fst acc @ filter (\<lambda>team. \<exists>r. outcome tz pool team = Some (Inr r)) completed"
proof (induction completed arbitrary: acc)
  case Nil
  show ?case by simp
next
  case (Cons team completed)
  show ?case
  proof (cases "outcome tz pool team")
    case None
    then show ?thesis
      by (simp add: collect_results_step Cons.IH del: collect_results.simps(2))
  next
    case (Some x)
    show ?thesis
    proof (cases x)
      case (Inl e)
      with Some show ?thesis
        by (simp add: collect_results_step Cons.IH del: collect_results.simps(2))
    next
      case (Inr r)
      with Some have "fst r = team"
        by (simp add: outcome_name)
      moreover obtain a n ds where "r = (a, n, ds)"
        by (cases r)
      ultimately show ?thesis
        using Some Inr
        by (simp add: collect_results_step Cons.IH del: collect_results.simps(2))
    qed
  qed
qed

lemma distinct_ranking_names:
  assumes "distinct completed"
  shows "distinct (map fst (py_sorted_reverse viewable_count
           (collect_results tz pool completed [])))"
proof -
  let ?pre = "collect_results tz pool completed []"
  have "mset (map fst (py_sorted_reverse viewable_count ?pre)) = mset (map fst ?pre)"
    by (simp only: mset_map mset_py_sorted_reverse)
  then have "distinct (map fst (py_sorted_reverse viewable_count ?pre)) =
      distinct (map fst ?pre)"
    by (rule mset_eq_imp_distinct_iff)
  with assms show ?thesis
    by (simp add: collect_results_names)
qed

lemma process_timezone_no_workers:
  "max_workers s \<le> 0 \<Longrightarrow> process_timezone s top_n pool tz completed = Inl ValueError"
  by (simp add: process_timezone_def rank_outcome_def)

lemma process_timezone_workers:
  assumes "0 < max_workers s" and "distinct completed"
  shows "process_timezone s top_n pool tz completed =
     Inr (tz, spec_top top_n (rows_of (rank_outcome s tz pool completed)))"
proof -
  have "distinct (map fst (py_sorted_reverse viewable_count
      (collect_results tz pool completed [])))"
    using assms(2) by (rule distinct_ranking_names)
  then show ?thesis
    using assms(1)
    by (simp add: process_timezone_def rank_outcome_def rows_of_def viewable_count_key
        top_teams_distinct)
qed

lemma collect_timezones_no_workers:
  "max_workers s \<le> 0 \<Longrightarrow> collect_timezones s top_n pool tc tzs acc = acc"
  by (induction tzs arbitrary: acc) (simp_all add: process_timezone_no_workers)

lemma collect_timezones_workers:
  assumes "0 < max_workers s" and "\<forall>tz\<in>set tzs. distinct (tc tz)"
    and "distinct (map timezone_key tzs)"
    and "set (map timezone_key tzs) \<inter> fst ` set acc = {}"
  shows "collect_timezones s top_n pool tc tzs acc =
     acc @ map (\<lambda>tz. (timezone_key tz,
                       spec_top top_n (rows_of (rank_outcome s tz pool (tc tz))))) tzs"
  using assms(2,3,4)
proof (induction tzs arbitrary: acc)
  case Nil
  show ?case by simp
next
  case (Cons tz tzs)
  let ?entry = "spec_top top_n (rows_of (rank_outcome s tz pool (tc tz)))"
  from Cons.prems(1) have dtz: "distinct (tc tz)" and rest: "\<forall>tz\<in>set tzs. distinct (tc tz)"
    by simp_all
  have p: "process_timezone s top_n pool tz (tc tz) = Inr (tz, ?entry)"
    using assms(1) dtz by (rule process_timezone_workers)
  from Cons.prems have fresh: "timezone_key tz \<notin> fst ` set acc"
    by auto
  then have ds: "dict_set (timezone_key tz) ?entry acc = acc @ [(timezone_key tz, ?entry)]"
    by (rule dict_set_fresh)
  from Cons.prems have d: "distinct (map timezone_key tzs)"
    and dj: "set (map timezone_key tzs) \<inter> fst ` set (acc @ [(timezone_key tz, ?entry)]) = {}"
    by auto
  show ?case
    using Cons.IH [OF rest d dj] by (simp add: p ds)
qed

lemma map_of_keyed:
  assumes "distinct (map key xs)" and "x \<in> set xs"
  shows "map_of (map (\<lambda>x. (key x, g x)) xs) (key x) = Some (g x)"
  using assms by (induction xs) (auto simp add: image_iff)

lemma generate_workers:
  assumes "0 < max_workers s" and "mset tz_completed = mset timezone_range"
    and "\<forall>tz\<in>set timezone_range. distinct (team_completed tz)"
  shows "fst (generate_timezone_analysis_parallel E s top_n schedule team_completed
                tz_completed) =
     map (\<lambda>tz. (timezone_key tz,
                 spec_top top_n (timezone_ranking E s schedule team_completed tz)))
       tz_completed"
proof -
  note k = completed_keys [OF assms(2)]
  have "set tz_completed = set timezone_range"
    using assms(2) by (rule mset_eq_setD)
  with assms(3) have d: "\<forall>tz\<in>set tz_completed. distinct (team_completed tz)"
    by simp
  obtain pool s1 where
    x: "execute E schedule (concat (map (submitted s) timezone_range)) s = (pool, s1)"
    by (cases "execute E schedule (concat (map (submitted s) timezone_range)) s")
  have "collect_timezones s top_n pool team_completed tz_completed [] =
     [] @ map (\<lambda>tz. (timezone_key tz,
                 spec_top top_n (rows_of (rank_outcome s tz pool (team_completed tz)))))
            tz_completed"
    using assms(1) d k(1) by (rule collect_timezones_workers) simp
  then show ?thesis
    by (simp add: generate_timezone_analysis_parallel_def timezone_ranking_def x)
qed

lemma generate_no_workers:
  assumes "max_workers s \<le> 0"
  shows "generate_timezone_analysis_parallel E s top_n schedule team_completed tz_completed =
     ([], s)"
proof -
  have c: "concat (map (submitted s) timezone_range) = []"
    using assms by (simp add: submitted_def)
  show ?thesis
    unfolding generate_timezone_analysis_parallel_def c
    using assms by (simp add: execute_empty collect_timezones_no_workers)
qed

text \<open>
  Claim C4, as stated: the aggregator produces exactly 25 entries. With \<open>max_workers=0\<close>
  the \<open>ThreadPoolExecutor\<close> of line 147 raises \<open>ValueError\<close> in every ranking, lines 187 to
  189 report each timezone and leave it out, and the result is empty.
\<close>

theorem no_workers_no_timezones:
  "max_workers no_workers = 0 \<and>
   fst (rank_teams_by_viewing_availability_parallel scenario_env no_workers (-5) [] team_list) =
     Inl ValueError \<and>
   fst (generate_timezone_analysis_parallel scenario_env no_workers 5 [] in_submission_order
          timezone_range) = []"
  using scenario_workers(3)
  by (simp add: generate_no_workers rank_no_workers) (simp add: no_workers_def init_def)

text \<open>
  Claim C4, amended. When \<open>max_workers\<close> is positive,
  \<open>generate_timezone_analysis_parallel\<close> returns exactly 25 entries, one for each offset
  from -12 to +12, keyed by the labels \<open>UTC-12\<close>, ..., \<open>UTC-1\<close>, \<open>UTC+0\<close>, \<open>UTC+1\<close>, ...,
  \<open>UTC+12\<close> (sign always shown, no padding), in the order in which the timezone futures
  complete; the entry of a timezone is the first \<open>top_n\<close> rows of the ranking of that
  timezone in that run, so it holds \<open>top_n\<close> teams, fewer only when the ranking is shorter
  (and none when \<open>top_n\<close> is negative). This holds whatever the cache holds at the start,
  whatever the API answers, and however the threads interleave.
\<close>

theorem leaderboard_has_25_timezones:
  assumes "0 < max_workers s" and "mset tz_completed = mset timezone_range"
    and "\<forall>tz\<in>set timezone_range. distinct (team_completed tz)"
  shows
    "length (fst (generate_timezone_analysis_parallel E s top_n schedule team_completed
                    tz_completed)) = 25 \<and>
     mset (map fst (fst (generate_timezone_analysis_parallel E s top_n schedule team_completed
                           tz_completed))) = mset spec_labels \<and>
     map timezone_key timezone_range = spec_labels \<and>
     fst (generate_timezone_analysis_parallel E s top_n schedule team_completed tz_completed) =
       map (\<lambda>tz. (timezone_key tz,
                   spec_top top_n (timezone_ranking E s schedule team_completed tz)))
         tz_completed \<and>
     (\<forall>tz\<in>set timezone_range.
        map_of (fst (generate_timezone_analysis_parallel E s top_n schedule team_completed
                       tz_completed)) (timezone_key tz) =
          Some (spec_top top_n (timezone_ranking E s schedule team_completed tz)) \<and>
        length (spec_top top_n (timezone_ranking E s schedule team_completed tz)) =
          min (nat top_n) (length (timezone_ranking E s schedule team_completed tz))) \<and>
     (\<forall>(label, entry)\<in>set (fst (generate_timezone_analysis_parallel E s top_n schedule
                                    team_completed tz_completed)).
        int (length entry) \<le> max 0 top_n)"
proof -
  let ?result = "fst (generate_timezone_analysis_parallel E s top_n schedule team_completed
      tz_completed)"
  let ?entry = "\<lambda>tz. spec_top top_n (timezone_ranking E s schedule team_completed tz)"
  note k = completed_keys [OF assms(2)]
  have g: "?result = map (\<lambda>tz. (timezone_key tz, ?entry tz)) tz_completed"
    using assms by (rule generate_workers)
  have keys: "map fst ?result = map timezone_key tz_completed"
    by (simp add: g comp_def)
  then have labels: "mset (map fst ?result) = mset spec_labels"
    using k(2) by simp
  have "length (map fst ?result) = length spec_labels"
    using labels by (rule mset_eq_length)
  then have len: "length ?result = 25"
    by (simp add: length_spec_labels)
  have top: "length (?entry tz) =
      min (nat top_n) (length (timezone_ranking E s schedule team_completed tz))" for tz
    by (simp add: spec_top_def)
  have s: "set tz_completed = set timezone_range"
    using assms(2) by (rule mset_eq_setD)
  have look: "map_of ?result (timezone_key tz) = Some (?entry tz)"
    if "tz \<in> set timezone_range" for tz
    unfolding g using k(1) that s by (intro map_of_keyed) simp_all
  have sizes: "\<forall>(label, entry)\<in>set ?result. int (length entry) \<le> max 0 top_n"
    unfolding g by (auto simp add: spec_top_def)
  show ?thesis
    using len labels timezone_keys g look top sizes by blast
qed

lemma timezone_ranking_snapshot:
  assumes "0 < max_workers s" and "set (tc tz) \<subseteq> set team_list"
    and "tz \<in> set timezone_range"
  shows "timezone_ranking E (snapshot s f) schedule tc tz =
     py_sorted_reverse viewable_count (spec_rows f tz (tc tz))"
proof -
  let ?tasks = "concat (map rank_tasks timezone_range)"
  let ?pool = "map (\<lambda>l. (l, Returned (Inr (f (snd l))))) (map fst ?tasks)"
  have w: "0 < max_workers (snapshot s f)"
    using assms(1) by (simp add: snapshot_def)
  then have sub: "submitted (snapshot s f) = rank_tasks"
    by (simp add: submitted_def fun_eq_iff)
  have e: "execute E schedule ?tasks (snapshot s f) = (?pool, snapshot s f)"
    by (rule execute_settled) (rule settled_all_timezones)
  have "\<forall>team\<in>set (tc tz). map_of ?pool (tz, team) = Some (Returned (Inr (f team)))"
  proof
    fix team
    assume "team \<in> set (tc tz)"
    with assms(2,3) have "(tz, team) \<in> set (map fst ?tasks)"
      by (auto simp add: rank_tasks_def image_iff)
    then show "map_of ?pool (tz, team) = Some (Returned (Inr (f team)))"
      by (simp only: map_of_returned if_True snd_conv)
  qed
  then have "collect_results tz ?pool (tc tz) [] = [] @ spec_rows f tz (tc tz)"
    by (rule collect_results_settled)
  then show ?thesis
    using w
    by (simp add: timezone_ranking_def sub e rank_outcome_def rows_of_def viewable_count_key)
qed

theorem leaderboard_witness:
  "0 < max_workers (snapshot scenario_start toronto_only) \<and>
   mset (rev timezone_range) = mset timezone_range \<and>
   distinct team_list \<and>
   map fst (fst (generate_timezone_analysis_parallel scenario_env
                   (snapshot scenario_start toronto_only) 5 in_turns in_submission_order
                   (rev timezone_range))) = rev spec_labels \<and>
   map_of (fst (generate_timezone_analysis_parallel scenario_env
                  (snapshot scenario_start toronto_only) 5 in_turns in_submission_order
                  (rev timezone_range))) ''UTC-5'' =
     Some [(''TOR'', 1), (''NJD'', 0), (''NYI'', 0), (''NYR'', 0), (''PHI'', 0)]"
proof -
  have w: "0 < max_workers (snapshot scenario_start toronto_only)"
    by (simp add: snapshot_def scenario_workers)
  have p: "mset (rev timezone_range) = mset timezone_range"
    by simp
  have d: "\<forall>tz\<in>set timezone_range. distinct (in_submission_order tz)"
    by (simp add: in_submission_order_def distinct_team_list)
  have m: "(-5) \<in> set timezone_range"
    by (simp add: timezone_range_list)
  have k: "timezone_key (-5) = ''UTC-5''"
    by (simp add: timezone_key_def format_plus_d_def str_nat.simps)
  have r: "timezone_ranking scenario_env (snapshot scenario_start toronto_only) in_turns
      in_submission_order (-5) =
      py_sorted_reverse viewable_count (spec_rows toronto_only (-5) team_list)"
    using timezone_ranking_snapshot [OF scenario_workers(1) _ m, of in_submission_order]
    by (simp add: in_submission_order_def)
  have t: "spec_top 5 (py_sorted_reverse viewable_count (spec_rows toronto_only (-5) team_list))
      = [(''TOR'', 1), (''NJD'', 0), (''NYI'', 0), (''NYR'', 0), (''PHI'', 0)]"
    by (simp add: spec_rows_toronto_only team_list_names py_sorted_reverse_def
        viewable_count_def spec_top_def)
  note h = leaderboard_has_25_timezones [OF w p d, of scenario_env 5 in_turns]
  from h have keys: "map fst (fst (generate_timezone_analysis_parallel scenario_env
                   (snapshot scenario_start toronto_only) 5 in_turns in_submission_order
                   (rev timezone_range))) = map timezone_key (rev timezone_range)"
    by (simp add: comp_def)
  from h m have entry: "map_of (fst (generate_timezone_analysis_parallel scenario_env
                  (snapshot scenario_start toronto_only) 5 in_turns in_submission_order
                  (rev timezone_range))) (timezone_key (-5)) =
     Some (spec_top 5 (timezone_ranking scenario_env (snapshot scenario_start toronto_only)
                         in_turns in_submission_order (-5)))"
    by blast
  have kr: "map timezone_key (rev timezone_range) = rev spec_labels"
    by (simp add: timezone_keys flip: rev_map)
  show ?thesis
    using w p distinct_team_list keys entry
    by (simp add: k r t kr)
qed

section \<open>Concurrent callers of the cache\<close>

lemma finish_tasks_keeps:
  assumes "cache s team = Some v"
    and "list_all (\<lambda>(l, c). c = AtCheck (snd l) \<or> (\<exists>r. c = Returned r)) pool"
  shows "cache (snd (finish_tasks E pool s)) team = Some v \<and>
     count_list (requests (snd (finish_tasks E pool s))) (schedule_url team) =
     count_list (requests s) (schedule_url team)"
  using assms
proof (induction pool arbitrary: s)
  case Nil
  then show ?case by simp
next
  case (Cons t pool)
  obtain l c where t: "t = (l, c)" by (cases t)
  from Cons.prems(2) have c: "c = AtCheck (snd l) \<or> (\<exists>r. c = Returned r)"
    and rest: "list_all (\<lambda>(l, c). c = AtCheck (snd l) \<or> (\<exists>r. c = Returned r)) pool"
    by (simp_all add: t)
  obtain c' s' where f: "finish_call E c s = (c', s')"
    by (cases "finish_call E c s")
  have k: "cache s' team = Some v \<and>
      count_list (requests s') (schedule_url team) = count_list (requests s) (schedule_url team)"
  proof (rule disjE [OF c])
    assume "c = AtCheck (snd l)"
    with f have "s' = snd (get_team_schedule_cached E s (snd l))"
      by (simp add: finish_call_sequential)
    then show ?thesis
      using get_keeps_entry [OF Cons.prems(1), of E "snd l"]
        get_keeps_requests [OF Cons.prems(1), of E "snd l"]
      by simp
  next
    assume "\<exists>r. c = Returned r"
    with f have "s' = s"
      by (auto simp add: finish_call_def run_call_Returned)
    with Cons.prems(1) show ?thesis by simp
  qed
  from k have "cache s' team = Some v" by simp
  from Cons.IH [OF this rest] k show ?case
    by (auto simp add: t f split: prod.splits)
qed

lemma step_task_skip:
  assumes "l \<notin> fst ` set xs"
  shows "step_task E l (xs @ ys) s =
     (case step_task E l ys s of (ys', s') \<Rightarrow> (xs @ ys', s'))"
  using assms by (induction xs) (auto split: prod.splits)

lemma step_task_frame:
  assumes "l \<in> L"
  shows "step_task E l (filter (\<lambda>t. fst t \<in> L) pool) s =
           (filter (\<lambda>t. fst t \<in> L) (fst (step_task E l pool s)), snd (step_task E l pool s)) \<and>
         filter (\<lambda>t. fst t \<notin> L) (fst (step_task E l pool s)) = filter (\<lambda>t. fst t \<notin> L) pool"
  using assms
proof (induction pool)
  case Nil
  show ?case by simp
next
  case (Cons t pool)
  obtain l' c where t: "t = (l', c)" by (cases t)
  show ?case
  proof (cases "l = l'")
    case True
    with Cons.prems show ?thesis
      by (simp add: t split: prod.splits)
  next
    case False
    with Cons.IH [OF Cons.prems] show ?thesis
      by (auto simp add: t split: prod.splits)
  qed
qed

lemma run_tasks_frame:
  assumes "set schedule \<subseteq> L"
  shows "run_tasks E schedule (filter (\<lambda>t. fst t \<in> L) pool) s =
           (filter (\<lambda>t. fst t \<in> L) (fst (run_tasks E schedule pool s)),
            snd (run_tasks E schedule pool s)) \<and>
         filter (\<lambda>t. fst t \<notin> L) (fst (run_tasks E schedule pool s)) =
           filter (\<lambda>t. fst t \<notin> L) pool"
  using assms
proof (induction schedule arbitrary: pool s)
  case Nil
  show ?case by simp
next
  case (Cons l schedule)
  then have l: "l \<in> L" and rest: "set schedule \<subseteq> L"
    by simp_all
  obtain pool1 s1 where x: "step_task E l pool s = (pool1, s1)"
    by (cases "step_task E l pool s")
  from step_task_frame [OF l, of E pool s] x
  have a: "step_task E l (filter (\<lambda>t. fst t \<in> L) pool) s = (filter (\<lambda>t. fst t \<in> L) pool1, s1)"
    and b: "filter (\<lambda>t. fst t \<notin> L) pool1 = filter (\<lambda>t. fst t \<notin> L) pool"
    by simp_all
  from Cons.IH [OF rest, of pool1 s1] show ?case
    by (simp add: x a b)
qed

lemma list_all_filter_split:
  "list_all Q xs = (list_all Q (filter P xs) \<and> list_all Q (filter (\<lambda>x. \<not> P x) xs))"
  by (auto simp add: list_all_iff)

lemma list_all_filter_keep: "list_all Q xs \<Longrightarrow> list_all Q (filter P xs)"
  by (simp add: list_all_iff)

lemma all_tasks:
  "concat (map (submitted scenario_start) timezone_range) =
     concat (map rank_tasks timezone_range)"
proof -
  have "submitted scenario_start = rank_tasks"
    using scenario_workers(1) by (simp add: submitted_def fun_eq_iff)
  then show ?thesis by simp
qed

lemma rank_tasks_waiting:
  "list_all (\<lambda>(l, c). c = AtCheck (snd l) \<or> (\<exists>r. c = Returned r))
     (concat (map rank_tasks tzs))"
  by (auto simp add: rank_tasks_def list_all_iff)

lemma toronto_tasks:
  "filter (\<lambda>t. fst t = (-12, ''TOR'') \<or> fst t = (-11, ''TOR'')) (rank_tasks tz) =
     (if tz = -12 \<or> tz = -11 then [((tz, ''TOR''), AtCheck ''TOR'')] else [])"
  by (simp add: rank_tasks_def team_list_names)

lemma two_callers_of_all:
  "filter (\<lambda>t. fst t \<in> {(-12, ''TOR''), (-11, ''TOR'')})
     (concat (map rank_tasks timezone_range)) = two_callers"
  by (simp add: filter_concat comp_def toronto_tasks timezone_range_list two_callers_def)

lemma two_callers_run:
  "run_tasks scenario_env in_turns two_callers scenario_start =
     ([((-12, ''TOR''), Returned (Inr [scenario_game])),
       ((-11, ''TOR''), Returned (Inr [scenario_game]))],
      scenario_start
        \<lparr>cache := [''TOR'' \<mapsto> [scenario_game]],
         lru := [(schedule_url ''TOR'', scenario_payload)],
         requests := [schedule_url ''TOR'', schedule_url ''TOR'']\<rparr>)"
  by (simp add: in_turns_def two_callers_def scenario_defs scenario_game_def
      parse_schedule_def parse_game_def replace_Z_def split_T_0_def calendar_defs Let_def)

lemma generate_fetches_twice:
  "count_list (requests (snd (generate_timezone_analysis_parallel scenario_env scenario_start 5
       in_turns in_submission_order timezone_range))) (schedule_url ''TOR'') = 2"
proof -
  let ?L = "{(-12, ''TOR''), (-11, ''TOR'')} :: (int \<times> string) set"
  let ?Q = "\<lambda>(l, c). c = AtCheck (snd l) \<or> (\<exists>r. c = Returned r)"
  let ?pool0 = "concat (map rank_tasks timezone_range)"
  obtain pool1 s1 where x: "run_tasks scenario_env in_turns ?pool0 scenario_start = (pool1, s1)"
    by (cases "run_tasks scenario_env in_turns ?pool0 scenario_start")
  have sub: "set in_turns \<subseteq> ?L"
    by (simp add: in_turns_def)
  note f = run_tasks_frame [OF sub, of scenario_env ?pool0 scenario_start]
  from f x have a: "run_tasks scenario_env in_turns two_callers scenario_start =
      (filter (\<lambda>t. fst t \<in> ?L) pool1, s1)"
    by (simp only: two_callers_of_all fst_conv snd_conv)
  from f x have b: "filter (\<lambda>t. fst t \<notin> ?L) pool1 = filter (\<lambda>t. fst t \<notin> ?L) ?pool0"
    by (simp only: fst_conv)
  from a have s1: "s1 = scenario_start
        \<lparr>cache := [''TOR'' \<mapsto> [scenario_game]],
         lru := [(schedule_url ''TOR'', scenario_payload)],
         requests := [schedule_url ''TOR'', schedule_url ''TOR'']\<rparr>"
    and p1: "filter (\<lambda>t. fst t \<in> ?L) pool1 =
      [((-12, ''TOR''), Returned (Inr [scenario_game])),
       ((-11, ''TOR''), Returned (Inr [scenario_game]))]"
    by (simp_all add: two_callers_run)
  have "list_all ?Q (filter (\<lambda>t. fst t \<in> ?L) pool1)"
    unfolding p1 by simp
  moreover have "list_all ?Q (filter (\<lambda>t. fst t \<notin> ?L) pool1)"
    unfolding b by (rule list_all_filter_keep) (rule rank_tasks_waiting)
  ultimately have q: "list_all ?Q pool1"
    using list_all_filter_split [of ?Q pool1 "\<lambda>t. fst t \<in> ?L"] by simp
  have c: "cache s1 ''TOR'' = Some [scenario_game]"
    by (simp add: s1)
  have r: "count_list (requests s1) (schedule_url ''TOR'') = 2"
    by (simp add: s1)
  from finish_tasks_keeps [OF c q, of scenario_env] r
  have "count_list (requests (snd (finish_tasks scenario_env pool1 s1))) (schedule_url ''TOR'') = 2"
    by simp
  then show ?thesis
    by (auto simp add: generate_timezone_analysis_parallel_def all_tasks execute_def x
        split: prod.splits)
qed

text \<open>
  Claim C7. Calls of \<open>get_team_schedule_cached\<close> that follow one another fetch a team once
  (\<open>sequential_calls_return_first_result\<close>). Calls that run at the same time do not: the
  lock is released between the lookup of lines 79 to 81 and the store of lines 104 and 105,
  and \<open>lru_cache\<close> does not make a second caller wait for the first. When the futures for
  Toronto of two rankings move in turns on a fresh analyzer, both find the cache empty and
  both send the request, also in a run of \<open>generate_timezone_analysis_parallel\<close>; and when
  the API answers the first request only, one caller returns the game and the other an
  empty schedule, which is the one the cache keeps.
\<close>

theorem concurrent_first_calls_fetch_twice:
  "requests (snd (execute scenario_env in_turns two_callers scenario_start)) =
     [schedule_url ''TOR'', schedule_url ''TOR''] \<and>
   map snd (fst (execute scenario_env in_turns two_callers scenario_start)) =
     [Returned (Inr [scenario_game]), Returned (Inr [scenario_game])] \<and>
   count_list (requests (snd (generate_timezone_analysis_parallel scenario_env scenario_start 5
       in_turns in_submission_order timezone_range))) (schedule_url ''TOR'') = 2 \<and>
   requests (snd (execute flaky_env in_turns two_callers scenario_start)) =
     [schedule_url ''TOR'', schedule_url ''TOR''] \<and>
   map snd (fst (execute flaky_env in_turns two_callers scenario_start)) =
     [Returned (Inr [scenario_game]), Returned (Inr [])] \<and>
   cache (snd (execute flaky_env in_turns two_callers scenario_start)) ''TOR'' = Some []"
proof -
  have a: "execute scenario_env in_turns two_callers scenario_start =
     ([((-12, ''TOR''), Returned (Inr [scenario_game])),
       ((-11, ''TOR''), Returned (Inr [scenario_game]))],
      scenario_start
        \<lparr>cache := [''TOR'' \<mapsto> [scenario_game]],
         lru := [(schedule_url ''TOR'', scenario_payload)],
         requests := [schedule_url ''TOR'', schedule_url ''TOR'']\<rparr>)"
    by (simp add: execute_def two_callers_run finish_call_def run_call_Returned)
  have b: "requests (snd (execute flaky_env in_turns two_callers scenario_start)) =
       [schedule_url ''TOR'', schedule_url ''TOR''] \<and>
     map snd (fst (execute flaky_env in_turns two_callers scenario_start)) =
       [Returned (Inr [scenario_game]), Returned (Inr [])] \<and>
     cache (snd (execute flaky_env in_turns two_callers scenario_start)) ''TOR'' = Some []"
    by (simp add: execute_def in_turns_def two_callers_def finish_call_def run_call_Returned
        scenario_defs flaky_env_def scenario_game_def parse_schedule_def parse_game_def
        replace_Z_def split_T_0_def calendar_defs Let_def)
  show ?thesis
    using b generate_fetches_twice by (simp add: a)
qed

end
